theory Spec2Isabelle
  imports Complex_Main "HOL-Library.Multiset" "HOL-Library.Product_Lexorder"
begin

section \<open>Numbers, errors and rectangles\<close>

text \<open>
  The script \<^verbatim>\<open>server/scripts/pdfium_extract_assets.py\<close> computes with Python
  numbers. A Python number (an \<^verbatim>\<open>int\<close> or a finite \<^verbatim>\<open>float\<close>) is modelled as a
  real; the integers the code produces with \<^verbatim>\<open>int(...)\<close> are embedded with \<open>of_int\<close>.
  Rounding of floating-point arithmetic is not modelled. The operations of the script
  that can raise on finite numbers are division (by zero) and \<^verbatim>\<open>math.sqrt\<close> (of a
  negative number); \<^verbatim>\<open>int(math.inf)\<close> and indexing an empty list raise too. Each is
  a branch of the model.
\<close>

datatype py_error = ZeroDivisionError | ValueError | OverflowError | IndexError

definition py_div :: "real \<Rightarrow> real \<Rightarrow> py_error + real" where
  "py_div a b = (if b = 0 then Inl ZeroDivisionError else Inr (a / b))"

definition py_sqrt :: "real \<Rightarrow> py_error + real" where
  "py_sqrt a = (if a < 0 then Inl ValueError else Inr (sqrt a))"

text \<open>\<^verbatim>\<open>int(v)\<close> truncates towards zero.\<close>

definition py_int :: "real \<Rightarrow> int" where
  "py_int v = (if 0 \<le> v then \<lfloor>v\<rfloor> else \<lceil>v\<rceil>)"

text \<open>\<^verbatim>\<open>round(v)\<close> rounds to the nearest integer, a tie to the even one.\<close>

definition py_round :: "real \<Rightarrow> int" where
  "py_round v =
     (let f = \<lfloor>v\<rfloor>; d = v - of_int f
      in if d < 1 / 2 then f else if 1 / 2 < d then f + 1
         else if even f then f else f + 1)"

text \<open>
  A rectangle is the dictionary \<^verbatim>\<open>{"x", "y", "width", "height"}\<close>. The keys
  \<^verbatim>\<open>x\<close> and \<^verbatim>\<open>y\<close> are the fields \<open>rect_x\<close> and \<open>rect_y\<close>.
\<close>

record rect =
  rect_x :: real
  rect_y :: real
  width :: real
  height :: real

subsection \<open>clamp_bounds\<close>

definition clamp_bounds :: "'a rect_scheme \<Rightarrow> real \<Rightarrow> real \<Rightarrow> rect" where
  "clamp_bounds bounds page_width page_height =
     (let x = max 0 (\<lfloor>rect_x bounds\<rfloor>);
          y = max 0 (\<lfloor>rect_y bounds\<rfloor>);
          max_x = min page_width (of_int \<lceil>rect_x bounds + width bounds\<rceil>);
          max_y = min page_height (of_int \<lceil>rect_y bounds + height bounds\<rceil>)
      in \<lparr> rect_x = of_int x,
           rect_y = of_int y,
           width = max 0 (max_x - of_int x),
           height = max 0 (max_y - of_int y) \<rparr>)"

subsection \<open>ensure_minimum_bounds_size\<close>

text \<open>
  \<^verbatim>\<open>if not bounds\<close> holds for \<^verbatim>\<open>None\<close> and for the empty dictionary: the argument
  is an optional rectangle.
\<close>

definition ensure_minimum_bounds_size ::
  "rect option \<Rightarrow> real \<Rightarrow> real \<Rightarrow> real \<Rightarrow> real \<Rightarrow> rect" where
  "ensure_minimum_bounds_size bounds min_width min_height page_width page_height =
     (case bounds of
        None \<Rightarrow>
          clamp_bounds \<lparr> rect_x = 0, rect_y = 0, width = 0, height = 0 \<rparr> page_width page_height
      | Some b \<Rightarrow>
          (let x0 = rect_x b; y0 = rect_y b; w0 = width b; h0 = height b;
               (x1, w1) = (if w0 < min_width then (x0 - (min_width - w0) / 2, min_width)
                           else (x0, w0));
               (y1, h1) = (if h0 < min_height then (y0 - (min_height - h0) / 2, min_height)
                           else (y0, h0))
           in clamp_bounds \<lparr> rect_x = x1, rect_y = y1, width = w1, height = h1 \<rparr>
                page_width page_height))"

subsection \<open>shrink_bounds_to_target_area_ratio\<close>

definition shrink_bounds_to_target_area_ratio ::
  "rect \<Rightarrow> real \<Rightarrow> real \<Rightarrow> real \<Rightarrow> py_error + rect" where
  "shrink_bounds_to_target_area_ratio bounds page_width page_height target_area_ratio =
     (let page_area = max 1 (page_width * page_height);
          target_area = max 1 (page_area * target_area_ratio);
          current_area = max 1 (width bounds * height bounds)
      in if current_area \<le> target_area
         then Inr (clamp_bounds bounds page_width page_height)
         else
           (case py_div target_area current_area of
              Inl e \<Rightarrow> Inl e
            | Inr q \<Rightarrow>
               (case py_sqrt q of
                  Inl e \<Rightarrow> Inl e
                | Inr scale \<Rightarrow>
                   (let target_width = width bounds * scale;
                        target_height = height bounds * scale;
                        center_x = rect_x bounds + width bounds / 2;
                        center_y = rect_y bounds + height bounds / 2
                    in Inr (clamp_bounds
                         \<lparr> rect_x = center_x - target_width / 2,
                           rect_y = center_y - target_height / 2,
                           width = target_width,
                           height = target_height \<rparr>
                         page_width page_height)))))"

subsection \<open>intersection_over_union\<close>

text \<open>
  \<open>intersection_area\<close> and \<open>union_area\<close> are the local variables of the same names
  in \<^verbatim>\<open>intersection_over_union\<close>.
\<close>

definition intersection_area :: "rect \<Rightarrow> rect \<Rightarrow> real" where
  "intersection_area box_a box_b =
     (let intersection_x = max (rect_x box_a) (rect_x box_b);
          intersection_y = max (rect_y box_a) (rect_y box_b);
          intersection_max_x = min (rect_x box_a + width box_a) (rect_x box_b + width box_b);
          intersection_max_y = min (rect_y box_a + height box_a) (rect_y box_b + height box_b);
          intersection_width = max 0 (intersection_max_x - intersection_x);
          intersection_height = max 0 (intersection_max_y - intersection_y)
      in intersection_width * intersection_height)"

definition union_area :: "rect \<Rightarrow> rect \<Rightarrow> real" where
  "union_area box_a box_b =
     (let area_a = width box_a * height box_a;
          area_b = width box_b * height box_b
      in area_a + area_b - intersection_area box_a box_b)"

definition intersection_over_union :: "rect \<Rightarrow> rect \<Rightarrow> py_error + real" where
  "intersection_over_union box_a box_b =
     (if intersection_area box_a box_b \<le> 0 then Inr 0
      else if union_area box_a box_b \<le> 0 then Inr 0
      else py_div (intersection_area box_a box_b) (union_area box_a box_b))"

subsection \<open>intersects_with_margin\<close>


section \<open>Strings\<close>

text \<open>
  A Python string is modelled as a \<open>string\<close> whose characters are the code points
  below 256, so \<open>length\<close> counts code points as \<^verbatim>\<open>len\<close> does. On these code
  points the class \<^verbatim>\<open>\s\<close> of \<^verbatim>\<open>re\<close>, \<^verbatim>\<open>str.strip\<close> and \<^verbatim>\<open>str.split\<close> agree on
  what is whitespace: the characters 9 to 13, 28 to 32, 133 and 160.
\<close>

definition isspace :: "char \<Rightarrow> bool" where
  "isspace c \<longleftrightarrow>
     c \<in> {CHR 0x09, CHR 0x0A, CHR 0x0B, CHR 0x0C, CHR 0x0D, CHR 0x1C, CHR 0x1D, CHR 0x1E,
          CHR 0x1F, CHR 0x20, CHR 0x85, CHR 0xA0}"

text \<open>\<^verbatim>\<open>re.sub(r"\s+", " ", s)\<close>: every maximal run of whitespace becomes one space.\<close>

function sub_whitespace_runs :: "string \<Rightarrow> string" where
  "sub_whitespace_runs [] = []"
| "sub_whitespace_runs (c # cs) =
     (if isspace c then CHR 0x20 # sub_whitespace_runs (dropWhile isspace cs)
      else c # sub_whitespace_runs cs)"
  by pat_completeness auto
termination
  by (relation "measure length") (auto simp: le_imp_less_Suc length_dropWhile_le)

text \<open>\<^verbatim>\<open>s.strip()\<close>\<close>

definition strip :: "string \<Rightarrow> string" where
  "strip s = rev (dropWhile isspace (rev (dropWhile isspace s)))"

definition normalize_whitespace :: "string \<Rightarrow> string" where
  "normalize_whitespace v = (if v = [] then [] else strip (sub_whitespace_runs v))"

text \<open>
  The normal form that \<^verbatim>\<open>normalize_whitespace\<close> produces: a string is single spaced
  when its only whitespace characters are spaces and none of them is followed by a
  whitespace character; a normal text is a string that is not empty and is a result
  of \<^verbatim>\<open>normalize_whitespace\<close>.
\<close>

fun single_spaced :: "string \<Rightarrow> bool" where
  "single_spaced [] = True"
| "single_spaced [c] = (isspace c \<longrightarrow> c = CHR 0x20)"
| "single_spaced (c # d # ds) =
     ((isspace c \<longrightarrow> c = CHR 0x20 \<and> \<not> isspace d) \<and> single_spaced (d # ds))"

definition normal_text :: "string \<Rightarrow> bool" where
  "normal_text t \<longleftrightarrow> t \<noteq> [] \<and> (\<exists>p. t = normalize_whitespace p)"

text \<open>
  \<^verbatim>\<open>s.lower()\<close> on the code points below 256: the letters A to Z and the capital
  letters 192 to 222 (but the multiplication sign 215) move up by 32.
\<close>

definition lower_char :: "char \<Rightarrow> char" where
  "lower_char c =
     (let n = (of_char c :: nat)
      in if (65 \<le> n \<and> n \<le> 90) \<or> (192 \<le> n \<and> n \<le> 222 \<and> n \<noteq> 215)
         then char_of (n + 32) else c)"

text \<open>The characters that \<^verbatim>\<open>[^a-z0-9\s]\<close> leaves in place.\<close>

definition keeps_char :: "char \<Rightarrow> bool" where
  "keeps_char c \<longleftrightarrow>
     (let n = (of_char c :: nat)
      in (97 \<le> n \<and> n \<le> 122) \<or> (48 \<le> n \<and> n \<le> 57) \<or> isspace c)"

text \<open>
  \<^verbatim>\<open>s.split()\<close>: the maximal runs of characters that are not whitespace; \<open>cur\<close> is
  the run being read.
\<close>

fun split_whitespace :: "string \<Rightarrow> string \<Rightarrow> string list" where
  "split_whitespace cur [] = (if cur = [] then [] else [cur])"
| "split_whitespace cur (c # cs) =
     (if isspace c
      then (if cur = [] then split_whitespace [] cs else cur # split_whitespace [] cs)
      else split_whitespace (cur @ [c]) cs)"

definition tokenize_for_score :: "string \<Rightarrow> string list" where
  "tokenize_for_score v =
     (let lowered = map lower_char (normalize_whitespace v);
          replaced = map (\<lambda>c. if keeps_char c then c else CHR 0x20) lowered
      in filter (\<lambda>token. 3 \<le> length token) (split_whitespace [] replaced))"

text \<open>\<^verbatim>\<open>s[:n]\<close>, where a negative \<open>n\<close> counts from the end.\<close>

definition slice_to :: "'a list \<Rightarrow> int \<Rightarrow> 'a list" where
  "slice_to s n = (if 0 \<le> n then take (nat n) s else take (length s - nat (- n)) s)"

text \<open>
  \<^verbatim>\<open>xs.sort(key=f, reverse=True)\<close>: descending in the key; elements with equal keys
  keep their order.
\<close>

definition sort_reverse :: "('a \<Rightarrow> real) \<Rightarrow> 'a list \<Rightarrow> 'a list" where
  "sort_reverse f xs = rev (sort_key f (rev xs))"

section \<open>Text lines\<close>

text \<open>
  A character item and a text line are both a rectangle with the key \<^verbatim>\<open>text\<close>,
  here the field \<open>text_str\<close>.
\<close>

record text_box = rect +
  text_str :: string

text \<open>
  The running bounding box of the two scanning loops. \<^verbatim>\<open>math.inf\<close> and
  \<^verbatim>\<open>-math.inf\<close>, the starting values, are \<open>None\<close>.
\<close>

record bbox_acc =
  min_x :: "real option"
  min_y :: "real option"
  max_x :: "real option"
  max_y :: "real option"

definition min_inf :: "real option \<Rightarrow> real \<Rightarrow> real" where
  "min_inf acc v = (case acc of None \<Rightarrow> v | Some m \<Rightarrow> min m v)"

definition max_inf :: "real option \<Rightarrow> real \<Rightarrow> real" where
  "max_inf acc v = (case acc of None \<Rightarrow> v | Some m \<Rightarrow> max m v)"

definition grow_bbox :: "'a rect_scheme \<Rightarrow> 'b bbox_acc_scheme \<Rightarrow> 'b bbox_acc_scheme" where
  "grow_bbox item acc =
     acc\<lparr> min_x := Some (min_inf (min_x acc) (rect_x item)),
          min_y := Some (min_inf (min_y acc) (rect_y item)),
          max_x := Some (max_inf (max_x acc) (rect_x item + width item)),
          max_y := Some (max_inf (max_y acc) (rect_y item + height item)) \<rparr>"

subsection \<open>build_text_lines\<close>

text \<open>The entries of the list \<^verbatim>\<open>lines\<close>.\<close>

record line_acc =
  items :: "text_box list"
  center_y :: real

text \<open>
  The scan \<^verbatim>\<open>for line in lines\<close> for the closest line within \<open>line_gap\<close>. The matched
  line is the index \<open>i\<close> of the entry the code keeps a reference to.
\<close>

fun find_matched_line ::
  "real \<Rightarrow> real \<Rightarrow> line_acc list \<Rightarrow> nat \<Rightarrow> nat option \<Rightarrow> real option \<Rightarrow> nat option" where
  "find_matched_line line_gap cy [] i matched_line closest_delta = matched_line"
| "find_matched_line line_gap cy (line # rest) i matched_line closest_delta =
     (let delta = \<bar>center_y line - cy\<bar>
      in if delta \<le> line_gap \<and> (case closest_delta of None \<Rightarrow> True | Some d \<Rightarrow> delta < d)
         then find_matched_line line_gap cy rest (Suc i) (Some i) (Some delta)
         else find_matched_line line_gap cy rest (Suc i) matched_line closest_delta)"

text \<open>The loop \<^verbatim>\<open>for item in sorted_items\<close> that assigns each character to a line.\<close>

fun cluster_items :: "real \<Rightarrow> line_acc list \<Rightarrow> text_box list \<Rightarrow> py_error + line_acc list" where
  "cluster_items line_gap lines [] = Inr lines"
| "cluster_items line_gap lines (item # rest) =
     (let cy = rect_y item + height item / 2
      in case find_matched_line line_gap cy lines 0 None None of
           None \<Rightarrow> cluster_items line_gap (lines @ [\<lparr> items = [item], center_y = cy \<rparr>]) rest
         | Some i \<Rightarrow>
            (let members = items (lines ! i) @ [item];
                 centers = map (\<lambda>entry. rect_y entry + height entry / 2) members
             in case py_div (sum_list centers) (of_nat (length centers)) of
                  Inl e \<Rightarrow> Inl e
                | Inr c \<Rightarrow>
                    cluster_items line_gap
                      (lines[i := \<lparr> items = members, center_y = c \<rparr>]) rest))"

text \<open>The state of the loop over the characters of one line, and its body.\<close>

record line_scan = bbox_acc +
  pieces :: "string list"
  previous :: "text_box option"

definition scan_item :: "text_box \<Rightarrow> line_scan \<Rightarrow> line_scan" where
  "scan_item item st =
     (let grown = grow_bbox item st;
          separator =
            (case previous st of
               None \<Rightarrow> []
             | Some prev \<Rightarrow>
                (let gap = rect_x item - (rect_x prev + width prev);
                     space_threshold = max 1.5 (min (height prev) (height item) * 0.35)
                 in if gap > space_threshold \<and> text_str prev \<noteq> '' '' \<and> text_str item \<noteq> '' ''
                    then ['' ''] else []))
      in grown\<lparr> pieces := pieces st @ separator @ [text_str item], previous := Some item \<rparr>)"

text \<open>
  One round of the loop \<^verbatim>\<open>for line in lines\<close>: \<open>None\<close> is the \<^verbatim>\<open>continue\<close> of a line
  whose text is empty.
\<close>

definition normalize_line :: "line_acc \<Rightarrow> py_error + text_box option" where
  "normalize_line line =
     (let sorted_line = sort_key rect_x (items line);
          st = fold scan_item sorted_line
                 \<lparr> min_x = None, min_y = None, max_x = None, max_y = None,
                   pieces = [], previous = None \<rparr>;
          line_text = normalize_whitespace (concat (pieces st))
      in if line_text = [] then Inr None
         else
           (case (min_x st, min_y st, max_x st, max_y st) of
              (Some x0, Some y0, Some x1, Some y1) \<Rightarrow>
                Inr (Some \<lparr> rect_x = of_int (py_int x0),
                            rect_y = of_int (py_int y0),
                            width = of_int (py_int (x1 - x0)),
                            height = of_int (py_int (y1 - y0)),
                            text_str = line_text \<rparr>)
            | _ \<Rightarrow> Inl OverflowError))"

fun normalize_lines :: "line_acc list \<Rightarrow> py_error + text_box list" where
  "normalize_lines [] = Inr []"
| "normalize_lines (line # rest) =
     (case normalize_line line of
        Inl e \<Rightarrow> Inl e
      | Inr r \<Rightarrow>
         (case normalize_lines rest of
            Inl e \<Rightarrow> Inl e
          | Inr normalized_lines \<Rightarrow>
              Inr (case r of None \<Rightarrow> normalized_lines | Some l \<Rightarrow> l # normalized_lines)))"

definition build_text_lines :: "text_box list \<Rightarrow> py_error + text_box list" where
  "build_text_lines char_items =
     (if char_items = [] then Inr []
      else
        (let sorted_items = sort_key (\<lambda>item. (rect_y item, rect_x item)) char_items;
             heights = map height (filter (\<lambda>item. height item > 0) sorted_items);
             median_height = (if heights \<noteq> [] then sort heights ! (length heights div 2) else 12);
             line_gap = max 6 (min 20 (py_round (median_height * 0.9)))
         in case cluster_items (of_int line_gap) [] sorted_items of
              Inl e \<Rightarrow> Inl e
            | Inr lines \<Rightarrow> normalize_lines lines))"

section \<open>Greedy selection\<close>

text \<open>
  \<^verbatim>\<open>any(intersection_over_union(existing, candidate) > limit for existing in selected)\<close>,
  read from left to right, stopping at the first hit.
\<close>

fun overlaps_existing :: "real \<Rightarrow> rect list \<Rightarrow> rect \<Rightarrow> py_error + bool" where
  "overlaps_existing limit [] candidate = Inr False"
| "overlaps_existing limit (existing # rest) candidate =
     (case intersection_over_union existing candidate of
        Inl e \<Rightarrow> Inl e
      | Inr v \<Rightarrow> if v > limit then Inr True else overlaps_existing limit rest candidate)"

text \<open>
  The selection loop of \<^verbatim>\<open>select_text_crop_candidates\<close> (lines 310 to 319, with
  \<open>box_of\<close> the key \<^verbatim>\<open>bounds\<close> and the limit 0.72) and of \<^verbatim>\<open>select_image_crop_boxes\<close>
  (lines 376 to 382, with \<open>box_of\<close> the identity and the limit 0.85). The two loops
  are the same text but for these two. The \<^verbatim>\<open>break\<close> comes after the append.
\<close>

fun greedy_select ::
  "('a \<Rightarrow> rect) \<Rightarrow> real \<Rightarrow> int \<Rightarrow> 'a list \<Rightarrow> 'a list \<Rightarrow> py_error + 'a list" where
  "greedy_select box_of limit max_per_page selected [] = Inr selected"
| "greedy_select box_of limit max_per_page selected (candidate # rest) =
     (case overlaps_existing limit (map box_of selected) (box_of candidate) of
        Inl e \<Rightarrow> Inl e
      | Inr overlaps \<Rightarrow>
         (let selected' = (if \<not> overlaps then selected @ [candidate] else selected)
          in if int (length selected') \<ge> max_per_page then Inr selected'
             else greedy_select box_of limit max_per_page selected' rest))"

text \<open>
  The rectangles of a list are separated when every earlier one and every later one
  have an intersection over union of at most the limit.
\<close>

definition separated :: "real \<Rightarrow> rect list \<Rightarrow> bool" where
  "separated limit bs \<longleftrightarrow>
     (\<forall>i j. i < j \<and> j < length bs \<longrightarrow>
        (\<exists>v. intersection_over_union (bs ! i) (bs ! j) = Inr v \<and> v \<le> limit))"

section \<open>select_text_crop_candidates\<close>

record text_crop_candidate =
  bounds :: rect
  contextText :: string
  score :: real

text \<open>
  The state of the loop over \<open>end_index\<close>: the running bounding box, the combined
  text, the token set, and the list \<open>raw_candidates\<close> that outlives the loop.
\<close>

record window_state = bbox_acc +
  combined_text :: string
  token_set :: "string set"
  raw_candidates :: "text_crop_candidate list"

definition window_step ::
  "text_box list \<Rightarrow> real \<Rightarrow> real \<Rightarrow> real \<Rightarrow> real \<Rightarrow> real \<Rightarrow> int \<Rightarrow> int \<Rightarrow> int \<Rightarrow>
   nat \<Rightarrow> nat \<Rightarrow> window_state \<Rightarrow> window_state" where
  "window_step text_lines page_width page_height text_block_padding_px min_crop_edge_px
     min_text_block_height_px min_text_block_char_length min_text_lines_per_block
     max_context_length start_index end_index st =
     (let page_area = max 1 (page_width * page_height);
          line = text_lines ! end_index;
          combined = normalize_whitespace (combined_text st @ '' '' @ text_str line);
          tokens = token_set st \<union> set (tokenize_for_score (text_str line));
          st' = (grow_bbox line st)\<lparr> combined_text := combined, token_set := tokens \<rparr>;
          x0 = min_inf (min_x st) (rect_x line);
          y0 = min_inf (min_y st) (rect_y line);
          x1 = max_inf (max_x st) (rect_x line + width line);
          y1 = max_inf (max_y st) (rect_y line + height line);
          line_count = int end_index - int start_index + 1
      in if line_count < min_text_lines_per_block
            \<or> int (length combined) < min_text_block_char_length
         then st'
         else
           (let expanded = clamp_bounds
                  \<lparr> rect_x = x0 - text_block_padding_px,
                    rect_y = y0 - text_block_padding_px,
                    width = (x1 - x0) + text_block_padding_px * 2,
                    height = (y1 - y0) + text_block_padding_px * 2 \<rparr>
                  page_width page_height;
                area = width expanded * height expanded
            in if width expanded < min_crop_edge_px
                  \<or> height expanded < min_text_block_height_px
                  \<or> area < page_area * 0.004
                  \<or> area > page_area * 0.68
               then st'
               else st'\<lparr> raw_candidates := raw_candidates st' @
                      [\<lparr> bounds = expanded,
                         contextText = slice_to combined max_context_length,
                         score = of_nat (card tokens) * 2
                                 + of_nat (min 200 (length combined)) * 0.07 \<rparr>] \<rparr>))"

text \<open>
  One round of the loop over \<open>start_index\<close>: \<^verbatim>\<open>range(start_index, max_end)\<close> is
  \<open>[start_index..<nat max_end]\<close>, empty when \<open>max_end \<le> start_index\<close>.
\<close>

definition window_sweep ::
  "text_box list \<Rightarrow> real \<Rightarrow> real \<Rightarrow> real \<Rightarrow> real \<Rightarrow> real \<Rightarrow> int \<Rightarrow> int \<Rightarrow> int \<Rightarrow> int \<Rightarrow>
   nat \<Rightarrow> text_crop_candidate list \<Rightarrow> text_crop_candidate list" where
  "window_sweep text_lines page_width page_height text_block_padding_px min_crop_edge_px
     min_text_block_height_px min_text_block_char_length min_text_lines_per_block
     max_text_lines_per_block max_context_length start_index found =
     (let max_end = min (int (length text_lines)) (int start_index + max_text_lines_per_block)
      in raw_candidates
           (fold (window_step text_lines page_width page_height text_block_padding_px
                    min_crop_edge_px min_text_block_height_px min_text_block_char_length
                    min_text_lines_per_block max_context_length start_index)
              [start_index..<nat max_end]
              \<lparr> min_x = None, min_y = None, max_x = None, max_y = None,
                combined_text = [], token_set = {}, raw_candidates = found \<rparr>))"

text \<open>The list \<open>raw_candidates\<close> after the two nested loops (lines 254 to 306).\<close>

definition text_raw_candidates ::
  "text_box list \<Rightarrow> real \<Rightarrow> real \<Rightarrow> real \<Rightarrow> real \<Rightarrow> real \<Rightarrow> int \<Rightarrow> int \<Rightarrow> int \<Rightarrow> int \<Rightarrow>
   text_crop_candidate list" where
  "text_raw_candidates text_lines page_width page_height text_block_padding_px
     min_crop_edge_px min_text_block_height_px min_text_block_char_length
     min_text_lines_per_block max_text_lines_per_block max_context_length =
     fold (window_sweep text_lines page_width page_height text_block_padding_px
             min_crop_edge_px min_text_block_height_px min_text_block_char_length
             min_text_lines_per_block max_text_lines_per_block max_context_length)
       [0..<length text_lines] []"

text \<open>
  \<^verbatim>\<open>max(xs, key=f)\<close> on a list that starts with \<open>best\<close>: the first element with the
  largest key.
\<close>

fun max_by_key :: "('a \<Rightarrow> nat) \<Rightarrow> 'a \<Rightarrow> 'a list \<Rightarrow> 'a" where
  "max_by_key f best [] = best"
| "max_by_key f best (e # rest) =
     (if f e > f best then max_by_key f e rest else max_by_key f best rest)"

text \<open>The rectangle \<open>expanded\<close> of the fallback (lines 324 to 339).\<close>

definition text_fallback_bounds ::
  "text_box \<Rightarrow> real \<Rightarrow> real \<Rightarrow> real \<Rightarrow> real \<Rightarrow> real \<Rightarrow> rect" where
  "text_fallback_bounds best_line page_width page_height text_block_padding_px
     min_crop_edge_px min_text_block_height_px =
     ensure_minimum_bounds_size
       (Some (clamp_bounds
          \<lparr> rect_x = rect_x best_line - text_block_padding_px * 2,
            rect_y = rect_y best_line - text_block_padding_px * 2,
            width = width best_line + text_block_padding_px * 4,
            height = height best_line + text_block_padding_px * 4 \<rparr>
          page_width page_height))
       min_crop_edge_px
       (max 56 (of_int (py_int (min_text_block_height_px * 0.7))))
       page_width page_height"

definition select_text_crop_candidates ::
  "text_box list \<Rightarrow> real \<Rightarrow> real \<Rightarrow> int \<Rightarrow> real \<Rightarrow> real \<Rightarrow> real \<Rightarrow> int \<Rightarrow> int \<Rightarrow> int \<Rightarrow> int \<Rightarrow>
   py_error + text_crop_candidate list" where
  "select_text_crop_candidates text_lines page_width page_height max_text_crops_per_page
     text_block_padding_px min_crop_edge_px min_text_block_height_px
     min_text_block_char_length min_text_lines_per_block max_text_lines_per_block
     max_context_length =
     (let page_area = max 1 (page_width * page_height);
          sorted_candidates = sort_reverse score
            (text_raw_candidates text_lines page_width page_height text_block_padding_px
               min_crop_edge_px min_text_block_height_px min_text_block_char_length
               min_text_lines_per_block max_text_lines_per_block max_context_length)
      in case greedy_select bounds 0.72 max_text_crops_per_page [] sorted_candidates of
           Inl e \<Rightarrow> Inl e
         | Inr selected \<Rightarrow>
            (case text_lines of
               first_line # more_lines \<Rightarrow>
                 if selected = [] then
                   (let best_line = max_by_key (\<lambda>line. length (text_str line))
                                      first_line more_lines;
                        expanded = text_fallback_bounds best_line page_width page_height
                                     text_block_padding_px min_crop_edge_px
                                     min_text_block_height_px;
                        area = width expanded * height expanded
                    in if area \<ge> page_area * 0.002
                       then Inr (selected @
                              [\<lparr> bounds = expanded,
                                 contextText = slice_to (normalize_whitespace (text_str best_line))
                                                 max_context_length,
                                 score = max 1 (of_nat (length (text_str best_line)) * 0.2) \<rparr>])
                       else Inr selected)
                 else Inr selected
             | [] \<Rightarrow> Inr selected))"

section \<open>select_image_crop_boxes\<close>

definition IMAGE_CROP_FALLBACK_AREA_RATIO :: real where
  "IMAGE_CROP_FALLBACK_AREA_RATIO = 0.62"

text \<open>
  The loop \<^verbatim>\<open>for bounds in raw_bounds\<close> (lines 357 to 372), which fills the lists
  \<open>normalized\<close> and \<open>filtered\<close>.
\<close>

fun image_filter_loop ::
  "real \<Rightarrow> real \<Rightarrow> real \<Rightarrow> real \<Rightarrow> real \<Rightarrow> rect list \<Rightarrow> rect list \<Rightarrow> rect list \<Rightarrow>
   py_error + (rect list \<times> rect list)" where
  "image_filter_loop page_width page_height min_crop_edge_px min_crop_area_ratio
     max_crop_area_ratio normalized filtered [] = Inr (normalized, filtered)"
| "image_filter_loop page_width page_height min_crop_edge_px min_crop_area_ratio
     max_crop_area_ratio normalized filtered (raw # rest) =
     (let page_area = max 1 (page_width * page_height);
          clamped = clamp_bounds raw page_width page_height;
          normalized' = normalized @ [clamped];
          w = width clamped;
          h = height clamped;
          area = w * h
      in if w < min_crop_edge_px \<or> h < min_crop_edge_px then
           image_filter_loop page_width page_height min_crop_edge_px min_crop_area_ratio
             max_crop_area_ratio normalized' filtered rest
         else if area < page_area * min_crop_area_ratio then
           image_filter_loop page_width page_height min_crop_edge_px min_crop_area_ratio
             max_crop_area_ratio normalized' filtered rest
         else if area > page_area * max_crop_area_ratio then
           image_filter_loop page_width page_height min_crop_edge_px min_crop_area_ratio
             max_crop_area_ratio normalized' filtered rest
         else
           (case py_div w (max 1 h) of
              Inl e \<Rightarrow> Inl e
            | Inr aspect_ratio \<Rightarrow>
                if aspect_ratio \<le> 0.15 \<or> aspect_ratio \<ge> 6.5 then
                  image_filter_loop page_width page_height min_crop_edge_px min_crop_area_ratio
                    max_crop_area_ratio normalized' filtered rest
                else
                  image_filter_loop page_width page_height min_crop_edge_px min_crop_area_ratio
                    max_crop_area_ratio normalized' (filtered @ [clamped]) rest))"

text \<open>The rectangle \<open>fallback\<close> after lines 386 to 404.\<close>

definition image_fallback_bounds ::
  "rect list \<Rightarrow> real \<Rightarrow> real \<Rightarrow> real \<Rightarrow> real \<Rightarrow> py_error + rect" where
  "image_fallback_bounds normalized page_width page_height min_crop_edge_px
     max_crop_area_ratio =
     (let page_area = max 1 (page_width * page_height)
      in case sort_reverse (\<lambda>entry. width entry * height entry) normalized of
           [] \<Rightarrow> Inl IndexError
         | largest # others \<Rightarrow>
            (case (if width largest * height largest > page_area * max_crop_area_ratio
                   then shrink_bounds_to_target_area_ratio largest page_width page_height
                          IMAGE_CROP_FALLBACK_AREA_RATIO
                   else Inr largest) of
               Inl e \<Rightarrow> Inl e
             | Inr fallback \<Rightarrow>
                 Inr (ensure_minimum_bounds_size (Some fallback) min_crop_edge_px
                        min_crop_edge_px page_width page_height)))"

definition select_image_crop_boxes ::
  "rect list \<Rightarrow> real \<Rightarrow> real \<Rightarrow> real \<Rightarrow> real \<Rightarrow> real \<Rightarrow> int \<Rightarrow> py_error + rect list" where
  "select_image_crop_boxes raw_bounds page_width page_height min_crop_edge_px
     min_crop_area_ratio max_crop_area_ratio max_crops_per_page =
     (let page_area = max 1 (page_width * page_height)
      in case image_filter_loop page_width page_height min_crop_edge_px min_crop_area_ratio
                max_crop_area_ratio [] [] raw_bounds of
           Inl e \<Rightarrow> Inl e
         | Inr (normalized, filtered) \<Rightarrow>
            (case greedy_select (\<lambda>entry. entry) 0.85 max_crops_per_page []
                    (sort_reverse (\<lambda>entry. width entry * height entry) filtered) of
               Inl e \<Rightarrow> Inl e
             | Inr selected \<Rightarrow>
                 if selected = [] \<and> normalized \<noteq> [] then
                   (case image_fallback_bounds normalized page_width page_height
                           min_crop_edge_px max_crop_area_ratio of
                      Inl e \<Rightarrow> Inl e
                    | Inr fallback \<Rightarrow>
                        if width fallback * height fallback \<ge> page_area * min_crop_area_ratio
                        then Inr (selected @ [fallback])
                        else Inr selected)
                 else Inr selected))"

section \<open>Properties of the geometry functions\<close>

subsection \<open>clamp_bounds\<close>

lemma clamp_bounds_sel:
  "rect_x (clamp_bounds b W H) = of_int (max 0 \<lfloor>rect_x b\<rfloor>)"
  "rect_y (clamp_bounds b W H) = of_int (max 0 \<lfloor>rect_y b\<rfloor>)"
  "width (clamp_bounds b W H) =
     max 0 (min W (of_int \<lceil>rect_x b + width b\<rceil>) - of_int (max 0 \<lfloor>rect_x b\<rfloor>))"
  "height (clamp_bounds b W H) =
     max 0 (min H (of_int \<lceil>rect_y b + height b\<rceil>) - of_int (max 0 \<lfloor>rect_y b\<rfloor>))"
  by (simp_all add: clamp_bounds_def Let_def)

lemma clamp_bounds_nonneg:
  "0 \<le> rect_x (clamp_bounds b W H)" "0 \<le> rect_y (clamp_bounds b W H)"
  "0 \<le> width (clamp_bounds b W H)" "0 \<le> height (clamp_bounds b W H)"
  by (simp_all add: clamp_bounds_sel)

lemma clamp_axis_within:
  fixes W m p :: real
  shows "p \<le> W \<Longrightarrow> p + max 0 (min W m - p) \<le> W"
  by (simp add: max_def min_def)

lemma clamp_axis_beyond:
  fixes W m p :: real
  shows "W < p \<Longrightarrow> max 0 (min W m - p) = 0"
  by (simp add: max_def min_def)

text \<open>
  C1, as the code has it. The rectangle that \<^verbatim>\<open>clamp_bounds\<close> returns has a
  non-negative origin and a non-negative size, and it ends within the page on every
  axis on which its origin lies within the page: the origin is floored at 0 but never
  lowered to the page size, so a rectangle that starts beyond the page keeps its origin
  and gets the size 0 on that axis.
\<close>

theorem clamp_bounds_containment:
  "0 \<le> rect_x (clamp_bounds r W H) \<and> 0 \<le> rect_y (clamp_bounds r W H)
   \<and> 0 \<le> width (clamp_bounds r W H) \<and> 0 \<le> height (clamp_bounds r W H)
   \<and> (rect_x (clamp_bounds r W H) \<le> W \<longrightarrow>
        rect_x (clamp_bounds r W H) + width (clamp_bounds r W H) \<le> W)
   \<and> (rect_y (clamp_bounds r W H) \<le> H \<longrightarrow>
        rect_y (clamp_bounds r W H) + height (clamp_bounds r W H) \<le> H)
   \<and> (W < rect_x (clamp_bounds r W H) \<longrightarrow> width (clamp_bounds r W H) = 0)
   \<and> (H < rect_y (clamp_bounds r W H) \<longrightarrow> height (clamp_bounds r W H) = 0)"
proof -
  have "rect_x (clamp_bounds r W H) \<le> W \<longrightarrow>
          rect_x (clamp_bounds r W H) + width (clamp_bounds r W H) \<le> W"
    unfolding clamp_bounds_sel by (rule impI) (rule clamp_axis_within)
  moreover have "rect_y (clamp_bounds r W H) \<le> H \<longrightarrow>
          rect_y (clamp_bounds r W H) + height (clamp_bounds r W H) \<le> H"
    unfolding clamp_bounds_sel by (rule impI) (rule clamp_axis_within)
  moreover have "W < rect_x (clamp_bounds r W H) \<longrightarrow> width (clamp_bounds r W H) = 0"
    unfolding clamp_bounds_sel by (rule impI) (rule clamp_axis_beyond)
  moreover have "H < rect_y (clamp_bounds r W H) \<longrightarrow> height (clamp_bounds r W H) = 0"
    unfolding clamp_bounds_sel by (rule impI) (rule clamp_axis_beyond)
  ultimately show ?thesis
    using clamp_bounds_nonneg[of r W H] by blast
qed

theorem clamp_bounds_containment_witness:
  "rect_x (clamp_bounds \<lparr>rect_x = - 11 / 2, rect_y = 16 / 5, width = 200, height = 10\<rparr> 100 50) \<le> 100
   \<and> rect_y (clamp_bounds \<lparr>rect_x = - 11 / 2, rect_y = 16 / 5, width = 200, height = 10\<rparr> 100 50) \<le> 50
   \<and> clamp_bounds \<lparr>rect_x = - 11 / 2, rect_y = 16 / 5, width = 200, height = 10\<rparr> 100 50
       = \<lparr>rect_x = 0, rect_y = 3, width = 100, height = 11\<rparr>
   \<and> rect_x (clamp_bounds \<lparr>rect_x = - 11 / 2, rect_y = 16 / 5, width = 200, height = 10\<rparr> 100 50)
       + width (clamp_bounds \<lparr>rect_x = - 11 / 2, rect_y = 16 / 5, width = 200, height = 10\<rparr> 100 50)
       \<le> 100
   \<and> rect_y (clamp_bounds \<lparr>rect_x = - 11 / 2, rect_y = 16 / 5, width = 200, height = 10\<rparr> 100 50)
       + height (clamp_bounds \<lparr>rect_x = - 11 / 2, rect_y = 16 / 5, width = 200, height = 10\<rparr> 100 50)
       \<le> 50"
proof -
  have v: "clamp_bounds \<lparr>rect_x = - 11 / 2, rect_y = 16 / 5, width = 200, height = 10\<rparr> 100 50
       = \<lparr>rect_x = 0, rect_y = 3, width = 100, height = 11\<rparr>"
    by (simp add: clamp_bounds_def)
  show ?thesis
    using clamp_bounds_containment
      [of "\<lparr>rect_x = - 11 / 2, rect_y = 16 / 5, width = 200, height = 10\<rparr>" 100 50]
    unfolding v by simp
qed

text \<open>
  C1, as the specification states it, fails for a rectangle that starts to the right of
  the page: on a page of 100 by 100 the rectangle at \<open>x = 1000\<close> keeps \<open>x = 1000\<close>.
\<close>

theorem clamp_bounds_containment_counterexample:
  "clamp_bounds \<lparr>rect_x = 1000, rect_y = 0, width = 10, height = 10\<rparr> 100 100
     = \<lparr>rect_x = 1000, rect_y = 0, width = 0, height = 10\<rparr>
   \<and> \<not> (rect_x (clamp_bounds \<lparr>rect_x = 1000, rect_y = 0, width = 10, height = 10\<rparr> 100 100)
          + width (clamp_bounds \<lparr>rect_x = 1000, rect_y = 0, width = 10, height = 10\<rparr> 100 100)
          \<le> 100)"
  by (simp add: clamp_bounds_def)

lemma clamp_axis_idem:
  fixes W :: real and X c :: int
  shows "max 0 (min W (of_int \<lceil>of_int X + max 0 (min W (of_int c) - of_int X)\<rceil>) - of_int X)
         = max 0 (min W (of_int c) - of_int X)"
proof (cases "of_int X \<le> min W (of_int c)")
  case True
  then have w: "max 0 (min W (of_int c) - of_int X) = min W (of_int c) - of_int X"
    by simp
  have "min W (of_int \<lceil>min W (of_int c)\<rceil>) = min W (of_int c)"
  proof (cases "W \<le> of_int c")
    case True
    then have "min W (of_int c) = W" by simp
    moreover have "W \<le> of_int \<lceil>W\<rceil>" by (rule le_of_int_ceiling)
    ultimately show ?thesis by simp
  next
    case False
    then have "min W (of_int c) = of_int c" by simp
    then show ?thesis by simp
  qed
  with w show ?thesis by simp
next
  case False
  then have "min W (of_int c) - of_int X \<le> 0" by linarith
  then have w: "max 0 (min W (of_int c) - of_int X) = 0" by (simp only: max_absorb1)
  have "min W (of_int X) - of_int X \<le> 0" by simp
  then have "max 0 (min W (of_int X) - of_int X) = 0" by (simp only: max_absorb1)
  with w show ?thesis by simp
qed

lemma floor_max0_of_int: "\<lfloor>(of_int (max 0 n) :: real)\<rfloor> = max 0 n"
  by (rule floor_of_int)

lemma max0_max0: "max (0::int) (max 0 n) = max 0 n"
  by simp

text \<open>
  C5. \<^verbatim>\<open>clamp_bounds\<close> is idempotent, for every rectangle and all page dimensions.
\<close>

theorem clamp_bounds_idempotent:
  "clamp_bounds (clamp_bounds r W H) W H = clamp_bounds r W H"
proof (rule rect.equality)
  show "rect_x (clamp_bounds (clamp_bounds r W H) W H) = rect_x (clamp_bounds r W H)"
    by (simp only: clamp_bounds_sel floor_max0_of_int max0_max0)
  show "rect_y (clamp_bounds (clamp_bounds r W H) W H) = rect_y (clamp_bounds r W H)"
    by (simp only: clamp_bounds_sel floor_max0_of_int max0_max0)
  show "width (clamp_bounds (clamp_bounds r W H) W H) = width (clamp_bounds r W H)"
    by (simp only: clamp_bounds_sel floor_max0_of_int max0_max0 clamp_axis_idem)
  show "height (clamp_bounds (clamp_bounds r W H) W H) = height (clamp_bounds r W H)"
    by (simp only: clamp_bounds_sel floor_max0_of_int max0_max0 clamp_axis_idem)
  show "rect.more (clamp_bounds (clamp_bounds r W H) W H) = rect.more (clamp_bounds r W H)"
    by simp
qed

subsection \<open>intersection_over_union\<close>

lemma intersection_area_commute: "intersection_area a b = intersection_area b a"
  by (simp add: intersection_area_def Let_def max.commute min.commute)

lemma union_area_commute: "union_area a b = union_area b a"
  by (simp add: union_area_def Let_def intersection_area_commute[of a b] add.commute)

lemma iou_commute: "intersection_over_union a b = intersection_over_union b a"
  by (simp add: intersection_over_union_def intersection_area_commute[of a b]
        union_area_commute[of a b])

lemma intersection_area_le_left:
  assumes "0 < intersection_area a b"
  shows "intersection_area a b \<le> width a * height a"
proof -
  define iw where
    "iw = max 0 (min (rect_x a + width a) (rect_x b + width b) - max (rect_x a) (rect_x b))"
  define ih where
    "ih = max 0 (min (rect_y a + height a) (rect_y b + height b) - max (rect_y a) (rect_y b))"
  have I: "intersection_area a b = iw * ih"
    by (simp add: intersection_area_def Let_def iw_def ih_def)
  have nn: "0 \<le> iw" "0 \<le> ih" by (simp_all add: iw_def ih_def)
  from assms I have "0 < iw * ih" by simp
  with nn have pos: "0 < iw" "0 < ih"
    by (auto simp: zero_less_mult_iff)
  from pos(1) have "iw \<le> width a"
    unfolding iw_def by (simp add: max_def min_def split: if_splits)
  moreover from pos(2) have "ih \<le> height a"
    unfolding ih_def by (simp add: max_def min_def split: if_splits)
  ultimately have "iw * ih \<le> width a * height a"
    using nn by (intro mult_mono) auto
  with I show ?thesis by simp
qed

lemma intersection_area_le_right:
  "0 < intersection_area a b \<Longrightarrow> intersection_area a b \<le> width b * height b"
  using intersection_area_le_left[of b a] by (simp add: intersection_area_commute[of a b])

lemma union_ge_intersection:
  "0 < intersection_area a b \<Longrightarrow> intersection_area a b \<le> union_area a b"
  using intersection_area_le_left[of a b] intersection_area_le_right[of a b]
  by (simp add: union_area_def Let_def)

lemma iou_total:
  "\<exists>v. intersection_over_union a b = Inr v \<and> 0 \<le> v \<and> v \<le> 1"
proof (cases "intersection_area a b \<le> 0")
  case True
  then show ?thesis by (simp add: intersection_over_union_def)
next
  case False
  then have pos: "0 < intersection_area a b" by simp
  then have u: "intersection_area a b \<le> union_area a b" by (rule union_ge_intersection)
  with pos have upos: "0 < union_area a b" by linarith
  then have "intersection_over_union a b = Inr (intersection_area a b / union_area a b)"
    using False by (simp add: intersection_over_union_def py_div_def)
  moreover have "0 \<le> intersection_area a b / union_area a b" using pos upos by simp
  moreover have "intersection_area a b / union_area a b \<le> 1" using u upos by simp
  ultimately show ?thesis by blast
qed




subsection \<open>Totality\<close>

lemma py_div_max1: "py_div a (max 1 c) = Inr (a / max 1 c)"
proof -
  have "max 1 c \<noteq> 0" by (simp add: max_def)
  then show ?thesis by (simp only: py_div_def if_False)
qed

lemma py_sqrt_ratio_max1: "py_sqrt (max 1 a / max 1 c) = Inr (sqrt (max 1 a / max 1 c))"
proof -
  have "0 < max 1 a" "0 < max 1 c" by (simp_all add: max_def)
  then have "0 \<le> max 1 a / max 1 c" by simp
  then have "\<not> max 1 a / max 1 c < 0" by linarith
  then show ?thesis by (simp only: py_sqrt_def if_False)
qed

lemma if_Inr_ex: "\<exists>r. (if c then Inr u else Inr v) = Inr r"
  by (cases c) simp_all

lemma shrink_total: "\<exists>r. shrink_bounds_to_target_area_ratio b W H t = Inr r"
  unfolding shrink_bounds_to_target_area_ratio_def Let_def py_div_max1 py_sqrt_ratio_max1
    sum.case
  by (rule if_Inr_ex)









section \<open>Properties of the greedy selection\<close>

lemma overlaps_existing_total: "\<exists>ov. overlaps_existing limit sel c = Inr ov"
proof (induction sel)
  case Nil
  show ?case by (simp only: overlaps_existing.simps) blast
next
  case (Cons e es)
  obtain v where "intersection_over_union e c = Inr v" using iou_total[of e c] by blast
  with Cons show ?case by (cases "v > limit") auto
qed

lemma overlaps_existing_False:
  "overlaps_existing limit sel c = Inr False \<Longrightarrow>
   \<forall>e\<in>set sel. \<exists>v. intersection_over_union e c = Inr v \<and> v \<le> limit"
proof (induction sel)
  case Nil
  show ?case by simp
next
  case (Cons e es)
  obtain v where v: "intersection_over_union e c = Inr v" using iou_total[of e c] by blast
  with Cons.prems have "\<not> v > limit" and "overlaps_existing limit es c = Inr False"
    by (auto split: if_splits)
  with Cons.IH v show ?case by auto
qed

lemma greedy_select_step:
  "overlaps_existing limit (map f sel) (f c) = Inr ov \<Longrightarrow>
   greedy_select f limit cap sel (c # cs) =
     (if cap \<le> int (length (if \<not> ov then sel @ [c] else sel))
      then Inr (if \<not> ov then sel @ [c] else sel)
      else greedy_select f limit cap (if \<not> ov then sel @ [c] else sel) cs)"
  by (simp add: Let_def)

lemma separated_Nil: "separated limit []"
  by (simp add: separated_def)

lemma separated_snoc:
  assumes "separated limit bs"
    and "\<forall>e\<in>set bs. \<exists>v. intersection_over_union e c = Inr v \<and> v \<le> limit"
  shows "separated limit (bs @ [c])"
  unfolding separated_def
proof (intro allI impI)
  fix i j
  assume ij: "i < j \<and> j < length (bs @ [c])"
  show "\<exists>v. intersection_over_union ((bs @ [c]) ! i) ((bs @ [c]) ! j) = Inr v \<and> v \<le> limit"
  proof (cases "j < length bs")
    case True
    with ij assms(1) show ?thesis by (simp add: separated_def nth_append)
  next
    case False
    with ij have j: "j = length bs" and i: "i < length bs" by auto
    then have "bs ! i \<in> set bs" by simp
    with assms(2) i j show ?thesis by (simp add: nth_append)
  qed
qed

lemma separated_sym:
  assumes "separated limit bs" "i < length bs" "j < length bs" "i \<noteq> j"
  shows "\<exists>v. intersection_over_union (bs ! i) (bs ! j) = Inr v \<and> v \<le> limit"
proof (cases "i < j")
  case True
  with assms show ?thesis by (simp add: separated_def)
next
  case False
  with assms have "j < i" by simp
  with assms have "\<exists>v. intersection_over_union (bs ! j) (bs ! i) = Inr v \<and> v \<le> limit"
    by (simp add: separated_def)
  then show ?thesis by (simp add: iou_commute[of "bs ! i" "bs ! j"])
qed

lemma greedy_select_total: "\<exists>r. greedy_select f limit cap sel cs = Inr r"
proof (induction cs arbitrary: sel)
  case Nil
  show ?case by simp
next
  case (Cons c cs)
  obtain ov where ov: "overlaps_existing limit (map f sel) (f c) = Inr ov"
    using overlaps_existing_total by blast
  show ?case
    using Cons[of "sel @ [c]"] Cons[of sel] by (simp add: ov Let_def)
qed

lemma greedy_select_separated:
  "separated limit (map f sel) \<Longrightarrow> greedy_select f limit cap sel cs = Inr r \<Longrightarrow>
   separated limit (map f r)"
proof (induction cs arbitrary: sel)
  case Nil
  then show ?case by simp
next
  case (Cons c cs)
  obtain ov where ov: "overlaps_existing limit (map f sel) (f c) = Inr ov"
    using overlaps_existing_total by blast
  define sel' where "sel' = (if \<not> ov then sel @ [c] else sel)"
  have sep: "separated limit (map f sel')"
  proof (cases ov)
    case True
    with Cons.prems(1) show ?thesis by (simp add: sel'_def)
  next
    case False
    with ov have "overlaps_existing limit (map f sel) (f c) = Inr False" by simp
    then have "\<forall>e\<in>set (map f sel). \<exists>v. intersection_over_union e (f c) = Inr v \<and> v \<le> limit"
      by (rule overlaps_existing_False)
    with Cons.prems(1) have "separated limit (map f sel @ [f c])" by (rule separated_snoc)
    with False show ?thesis by (simp add: sel'_def)
  qed
  from Cons.prems(2)
  have res: "(if cap \<le> int (length sel') then Inr sel' else greedy_select f limit cap sel' cs) = Inr r"
    unfolding greedy_select_step[OF ov] sel'_def .
  show ?case
  proof (cases "cap \<le> int (length sel')")
    case True
    with res sep show ?thesis by simp
  next
    case False
    with res have "greedy_select f limit cap sel' cs = Inr r" by simp
    with sep show ?thesis by (rule Cons.IH)
  qed
qed

lemma greedy_select_length:
  "int (length sel) < max 1 cap \<Longrightarrow> greedy_select f limit cap sel cs = Inr r \<Longrightarrow>
   int (length r) \<le> max 1 cap"
proof (induction cs arbitrary: sel)
  case Nil
  then show ?case by simp
next
  case (Cons c cs)
  obtain ov where ov: "overlaps_existing limit (map f sel) (f c) = Inr ov"
    using overlaps_existing_total by blast
  define sel' where "sel' = (if \<not> ov then sel @ [c] else sel)"
  have len: "int (length sel') \<le> max 1 cap" using Cons.prems(1) by (simp add: sel'_def)
  from Cons.prems(2)
  have res: "(if cap \<le> int (length sel') then Inr sel' else greedy_select f limit cap sel' cs) = Inr r"
    unfolding greedy_select_step[OF ov] sel'_def .
  show ?case
  proof (cases "cap \<le> int (length sel')")
    case True
    with res len show ?thesis by simp
  next
    case False
    then have "int (length sel') < max 1 cap" by simp
    moreover from res False have "greedy_select f limit cap sel' cs = Inr r" by simp
    ultimately show ?thesis by (rule Cons.IH)
  qed
qed

lemma greedy_select_grows:
  "greedy_select f limit cap sel cs = Inr r \<Longrightarrow> length sel \<le> length r"
proof (induction cs arbitrary: sel)
  case Nil
  then show ?case by simp
next
  case (Cons c cs)
  obtain ov where ov: "overlaps_existing limit (map f sel) (f c) = Inr ov"
    using overlaps_existing_total by blast
  define sel' where "sel' = (if \<not> ov then sel @ [c] else sel)"
  have len: "length sel \<le> length sel'" by (simp add: sel'_def)
  from Cons.prems
  have res: "(if cap \<le> int (length sel') then Inr sel' else greedy_select f limit cap sel' cs) = Inr r"
    unfolding greedy_select_step[OF ov] sel'_def .
  show ?case
  proof (cases "cap \<le> int (length sel')")
    case True
    with res len show ?thesis by simp
  next
    case False
    with res have "greedy_select f limit cap sel' cs = Inr r" by simp
    then have "length sel' \<le> length r" by (rule Cons.IH)
    with len show ?thesis by simp
  qed
qed

lemma greedy_select_first:
  assumes "greedy_select f limit cap [] (c # cs) = Inr r"
  shows "r \<noteq> []"
proof (cases "cap \<le> 1")
  case True
  with assms show ?thesis by auto
next
  case False
  with assms have "greedy_select f limit cap [c] cs = Inr r" by simp
  then have "length [c] \<le> length r" by (rule greedy_select_grows)
  then show ?thesis by auto
qed

lemma greedy_select_cap0: "cap \<le> 1 \<Longrightarrow> greedy_select f limit cap [] (c # cs) = Inr [c]"
  by simp

section \<open>Properties of the selectors\<close>

lemma sort_reverse_set: "set (sort_reverse f xs) = set xs"
  by (simp add: sort_reverse_def)

lemma sort_reverse_Nil_iff: "sort_reverse f xs = [] \<longleftrightarrow> xs = []"
proof -
  have "length (sort_reverse f xs) = length xs" by (simp add: sort_reverse_def)
  then show ?thesis by (metis length_0_conv)
qed

lemma sort_reverse_descending: "sorted (rev (map f (sort_reverse f xs)))"
  by (simp add: sort_reverse_def rev_map)

lemma sort_reverse_mset: "mset (sort_reverse f xs) = mset xs"
  by (simp add: sort_reverse_def)

lemma image_filter_loop_total:
  "\<exists>fl. image_filter_loop W H e mn mx nl fl0 rs
        = Inr (nl @ map (\<lambda>b. clamp_bounds b W H) rs, fl)"
proof (induction rs arbitrary: nl fl0)
  case Nil
  show ?case by simp
next
  case (Cons r rs)
  show ?case
    using Cons[of "nl @ [clamp_bounds r W H]" fl0]
          Cons[of "nl @ [clamp_bounds r W H]" "fl0 @ [clamp_bounds r W H]"]
    by (simp add: Let_def py_div_max1)
qed

lemma separated_short: "length bs \<le> 1 \<Longrightarrow> separated limit bs"
  by (auto simp: separated_def)

lemma image_fallback_total:
  assumes "nl \<noteq> []"
  shows "\<exists>fb. image_fallback_bounds nl W H e mx = Inr fb"
proof -
  obtain l ls where srt: "sort_reverse (\<lambda>entry. width entry * height entry) nl = l # ls"
    using assms sort_reverse_Nil_iff[of "\<lambda>entry. width entry * height entry" nl]
    by (cases "sort_reverse (\<lambda>entry. width entry * height entry) nl") auto
  obtain r where "shrink_bounds_to_target_area_ratio l W H IMAGE_CROP_FALLBACK_AREA_RATIO = Inr r"
    using shrink_total by blast
  then show ?thesis
    by (simp add: image_fallback_bounds_def Let_def srt)
qed

lemma select_image_unfold:
  assumes "image_filter_loop W H e mn mx [] [] raw = Inr (nl, fl)"
    and "greedy_select (\<lambda>entry. entry) 0.85 cap []
           (sort_reverse (\<lambda>entry. width entry * height entry) fl) = Inr sel"
    and "nl \<noteq> [] \<Longrightarrow> image_fallback_bounds nl W H e mx = Inr fb"
  shows "select_image_crop_boxes raw W H e mn mx cap =
           (if sel = [] \<and> nl \<noteq> []
            then (if width fb * height fb \<ge> max 1 (W * H) * mn then Inr [fb] else Inr [])
            else Inr sel)"
  using assms by (simp add: select_image_crop_boxes_def Let_def)

lemma select_image_spec:
  "\<exists>sel. select_image_crop_boxes raw W H e mn mx cap = Inr sel
         \<and> separated 0.85 sel \<and> int (length sel) \<le> max 1 cap"
proof -
  obtain fl where loop: "image_filter_loop W H e mn mx [] [] raw
        = Inr (map (\<lambda>b. clamp_bounds b W H) raw, fl)"
    using image_filter_loop_total[of W H e mn mx "[]" "[]" raw] by auto
  obtain sel where g: "greedy_select (\<lambda>entry. entry) 0.85 cap []
           (sort_reverse (\<lambda>entry. width entry * height entry) fl) = Inr sel"
    using greedy_select_total by blast
  have sep: "separated 0.85 sel"
    using greedy_select_separated[of "0.85" "\<lambda>entry. entry" "[]", OF _ g]
    by (simp add: separated_Nil)
  have len: "int (length sel) \<le> max 1 cap"
    using greedy_select_length[of "[]" cap "\<lambda>entry. entry", OF _ g] by simp
  obtain fb where fb: "map (\<lambda>b. clamp_bounds b W H) raw \<noteq> [] \<Longrightarrow>
      image_fallback_bounds (map (\<lambda>b. clamp_bounds b W H) raw) W H e mx = Inr fb"
    using image_fallback_total[of "map (\<lambda>b. clamp_bounds b W H) raw" W H e mx] by blast
  note eq = select_image_unfold[OF loop g fb]
  show ?thesis
  proof (cases "sel = [] \<and> map (\<lambda>b. clamp_bounds b W H) raw \<noteq> []")
    case True
    then have "select_image_crop_boxes raw W H e mn mx cap =
        (if width fb * height fb \<ge> max 1 (W * H) * mn then Inr [fb] else Inr [])"
      using eq by simp
    then show ?thesis by (auto simp: separated_short)
  next
    case False
    then have "select_image_crop_boxes raw W H e mn mx cap = Inr sel"
      using eq by auto
    with sep len show ?thesis by blast
  qed
qed

lemma select_text_unfold:
  assumes "greedy_select bounds 0.72 cap []
             (sort_reverse score (text_raw_candidates tls W H pad e mh mc mnl mxl mcl)) = Inr sel"
  shows "select_text_crop_candidates tls W H cap pad e mh mc mnl mxl mcl =
           (case tls of
              [] \<Rightarrow> Inr sel
            | first_line # more_lines \<Rightarrow>
               if sel = [] then
                 (if width (text_fallback_bounds
                             (max_by_key (\<lambda>line. length (text_str line)) first_line more_lines)
                             W H pad e mh)
                     * height (text_fallback_bounds
                             (max_by_key (\<lambda>line. length (text_str line)) first_line more_lines)
                             W H pad e mh)
                     \<ge> max 1 (W * H) * 0.002
                  then Inr [\<lparr> bounds = text_fallback_bounds
                             (max_by_key (\<lambda>line. length (text_str line)) first_line more_lines)
                             W H pad e mh,
                           contextText = slice_to (normalize_whitespace (text_str
                             (max_by_key (\<lambda>line. length (text_str line)) first_line more_lines))) mcl,
                           score = max 1 (of_nat (length (text_str
                             (max_by_key (\<lambda>line. length (text_str line)) first_line more_lines))) * 0.2) \<rparr>]
                  else Inr [])
               else Inr sel)"
  using assms by (simp add: select_text_crop_candidates_def Let_def split: list.splits)

lemma select_text_spec:
  "\<exists>sel. select_text_crop_candidates tls W H cap pad e mh mc mnl mxl mcl = Inr sel
         \<and> separated 0.72 (map bounds sel) \<and> int (length sel) \<le> max 1 cap"
proof -
  obtain sel where g: "greedy_select bounds 0.72 cap []
             (sort_reverse score (text_raw_candidates tls W H pad e mh mc mnl mxl mcl)) = Inr sel"
    using greedy_select_total by blast
  have sep: "separated 0.72 (map bounds sel)"
    using greedy_select_separated[of "0.72" bounds "[]", OF _ g]
    by (simp add: separated_Nil)
  have len: "int (length sel) \<le> max 1 cap"
    using greedy_select_length[of "[]" cap bounds, OF _ g] by simp
  show ?thesis
    unfolding select_text_unfold[OF g]
    using sep len by (auto simp: separated_short split: list.splits)
qed

lemma separated_pairs:
  assumes "separated limit (map f sel)" "i < length sel" "j < length sel" "i \<noteq> j"
  shows "\<exists>v. intersection_over_union (f (sel ! i)) (f (sel ! j)) = Inr v \<and> v \<le> limit"
  using separated_sym[of limit "map f sel" i j] assms by simp

text \<open>
  C2, as the code has it. Both selectors return a list (no error branch is taken), and
  any two different entries of the list that \<^verbatim>\<open>select_text_crop_candidates\<close> returns
  have an intersection over union of at most 0.72; any two different rectangles that
  \<^verbatim>\<open>select_image_crop_boxes\<close> returns have one of at most 0.85. The loops suppress a
  candidate only when the value is greater than the limit, so the limit itself is
  reached.
\<close>

theorem selected_crops_overlap_at_most_limit:
  "(\<exists>sel. select_text_crop_candidates tls W H cap pad e mh mc mnl mxl mcl = Inr sel
      \<and> (\<forall>i j. i < length sel \<and> j < length sel \<and> i \<noteq> j \<longrightarrow>
            (\<exists>v. intersection_over_union (bounds (sel ! i)) (bounds (sel ! j)) = Inr v
                 \<and> v \<le> 0.72)))
   \<and> (\<exists>sel. select_image_crop_boxes raw W' H' e' mn mx cap' = Inr sel
      \<and> (\<forall>i j. i < length sel \<and> j < length sel \<and> i \<noteq> j \<longrightarrow>
            (\<exists>v. intersection_over_union (sel ! i) (sel ! j) = Inr v \<and> v \<le> 0.85)))"
proof
  obtain sel where s: "select_text_crop_candidates tls W H cap pad e mh mc mnl mxl mcl = Inr sel"
    and sep: "separated 0.72 (map bounds sel)"
    using select_text_spec[of tls W H cap pad e mh mc mnl mxl mcl] by blast
  show "\<exists>sel. select_text_crop_candidates tls W H cap pad e mh mc mnl mxl mcl = Inr sel
      \<and> (\<forall>i j. i < length sel \<and> j < length sel \<and> i \<noteq> j \<longrightarrow>
            (\<exists>v. intersection_over_union (bounds (sel ! i)) (bounds (sel ! j)) = Inr v
                 \<and> v \<le> 0.72))"
    using s separated_pairs[OF sep] by blast
next
  obtain sel where s: "select_image_crop_boxes raw W' H' e' mn mx cap' = Inr sel"
    and sep: "separated 0.85 (map (\<lambda>entry. entry) sel)"
    using select_image_spec[of raw W' H' e' mn mx cap'] by auto
  show "\<exists>sel. select_image_crop_boxes raw W' H' e' mn mx cap' = Inr sel
      \<and> (\<forall>i j. i < length sel \<and> j < length sel \<and> i \<noteq> j \<longrightarrow>
            (\<exists>v. intersection_over_union (sel ! i) (sel ! j) = Inr v \<and> v \<le> 0.85))"
    using s separated_pairs[OF sep] by blast
qed

lemma image_example_touching:
  "select_image_crop_boxes
     [\<lparr>rect_x = 0, rect_y = 0, width = 185, height = 100\<rparr>,
      \<lparr>rect_x = 15, rect_y = 0, width = 185, height = 100\<rparr>]
     1000 1000 10 (1 / 1000) (1 / 2) 4
   = Inr [\<lparr>rect_x = 0, rect_y = 0, width = 185, height = 100\<rparr>,
          \<lparr>rect_x = 15, rect_y = 0, width = 185, height = 100\<rparr>]"
  by (simp add: select_image_crop_boxes_def clamp_bounds_def Let_def py_div_def
      sort_reverse_def intersection_over_union_def intersection_area_def union_area_def)

lemma iou_example_touching:
  "intersection_over_union \<lparr>rect_x = 0, rect_y = 0, width = 185, height = 100\<rparr>
      \<lparr>rect_x = 15, rect_y = 0, width = 185, height = 100\<rparr> = Inr (17 / 20)"
  by (simp add: intersection_over_union_def intersection_area_def union_area_def py_div_def)

text \<open>
  C2, as the specification states it (strictly less than the limit), fails: two
  image rectangles of 185 by 100, 15 apart, have the intersection over union 0.85
  and are both selected.
\<close>

theorem selected_crops_overlap_counterexample:
  "select_image_crop_boxes
     [\<lparr>rect_x = 0, rect_y = 0, width = 185, height = 100\<rparr>,
      \<lparr>rect_x = 15, rect_y = 0, width = 185, height = 100\<rparr>]
     1000 1000 10 (1 / 1000) (1 / 2) 4
   = Inr [\<lparr>rect_x = 0, rect_y = 0, width = 185, height = 100\<rparr>,
          \<lparr>rect_x = 15, rect_y = 0, width = 185, height = 100\<rparr>]
   \<and> intersection_over_union \<lparr>rect_x = 0, rect_y = 0, width = 185, height = 100\<rparr>
      \<lparr>rect_x = 15, rect_y = 0, width = 185, height = 100\<rparr> = Inr (17 / 20)
   \<and> \<not> ((17 / 20 :: real) < 0.85)"
  using image_example_touching iou_example_touching by simp

lemma text_example_two_lines:
  "select_text_crop_candidates
     [\<lparr>rect_x = 0, rect_y = 0, width = 100, height = 100, text_str = ''a''\<rparr>,
      \<lparr>rect_x = 0, rect_y = 500, width = 100, height = 100, text_str = ''b''\<rparr>]
     1000 1000 6 0 10 10 1 1 1 10
   = Inr [\<lparr>bounds = \<lparr>rect_x = 0, rect_y = 0, width = 100, height = 100\<rparr>,
            contextText = ''a'', score = 7 / 100\<rparr>,
          \<lparr>bounds = \<lparr>rect_x = 0, rect_y = 500, width = 100, height = 100\<rparr>,
            contextText = ''b'', score = 7 / 100\<rparr>]"
  by code_simp

theorem selected_crops_overlap_witness:
  "select_text_crop_candidates
     [\<lparr>rect_x = 0, rect_y = 0, width = 100, height = 100, text_str = ''a''\<rparr>,
      \<lparr>rect_x = 0, rect_y = 500, width = 100, height = 100, text_str = ''b''\<rparr>]
     1000 1000 6 0 10 10 1 1 1 10
   = Inr [\<lparr>bounds = \<lparr>rect_x = 0, rect_y = 0, width = 100, height = 100\<rparr>,
            contextText = ''a'', score = 7 / 100\<rparr>,
          \<lparr>bounds = \<lparr>rect_x = 0, rect_y = 500, width = 100, height = 100\<rparr>,
            contextText = ''b'', score = 7 / 100\<rparr>]
   \<and> (\<exists>v. intersection_over_union \<lparr>rect_x = 0, rect_y = 0, width = 100, height = 100\<rparr>
              \<lparr>rect_x = 0, rect_y = 500, width = 100, height = 100\<rparr> = Inr v \<and> v \<le> 0.72)
   \<and> select_image_crop_boxes
     [\<lparr>rect_x = 0, rect_y = 0, width = 185, height = 100\<rparr>,
      \<lparr>rect_x = 15, rect_y = 0, width = 185, height = 100\<rparr>]
     1000 1000 10 (1 / 1000) (1 / 2) 4
   = Inr [\<lparr>rect_x = 0, rect_y = 0, width = 185, height = 100\<rparr>,
          \<lparr>rect_x = 15, rect_y = 0, width = 185, height = 100\<rparr>]
   \<and> (\<exists>v. intersection_over_union \<lparr>rect_x = 0, rect_y = 0, width = 185, height = 100\<rparr>
              \<lparr>rect_x = 15, rect_y = 0, width = 185, height = 100\<rparr> = Inr v \<and> v \<le> 0.85)"
proof -
  note inst = selected_crops_overlap_at_most_limit
     [of "[\<lparr>rect_x = 0, rect_y = 0, width = 100, height = 100, text_str = ''a''\<rparr>,
           \<lparr>rect_x = 0, rect_y = 500, width = 100, height = 100, text_str = ''b''\<rparr>]"
         1000 1000 6 0 10 10 1 1 1 10
         "[\<lparr>rect_x = 0, rect_y = 0, width = 185, height = 100\<rparr>,
           \<lparr>rect_x = 15, rect_y = 0, width = 185, height = 100\<rparr>]"
         1000 1000 10 "1 / 1000" "1 / 2" 4]
  have t: "\<forall>i j. i < (2::nat) \<and> j < 2 \<and> i \<noteq> j \<longrightarrow>
     (\<exists>v. intersection_over_union
        (bounds ([\<lparr>bounds = \<lparr>rect_x = 0, rect_y = 0, width = 100, height = 100\<rparr>,
            contextText = ''a'', score = 7 / 100\<rparr>,
          \<lparr>bounds = \<lparr>rect_x = 0, rect_y = 500, width = 100, height = 100\<rparr>,
            contextText = ''b'', score = 7 / 100\<rparr>] ! i))
        (bounds ([\<lparr>bounds = \<lparr>rect_x = 0, rect_y = 0, width = 100, height = 100\<rparr>,
            contextText = ''a'', score = 7 / 100\<rparr>,
          \<lparr>bounds = \<lparr>rect_x = 0, rect_y = 500, width = 100, height = 100\<rparr>,
            contextText = ''b'', score = 7 / 100\<rparr>] ! j)) = Inr v \<and> v \<le> 0.72)"
    using inst unfolding text_example_two_lines by simp
  have i: "\<forall>i j. i < (2::nat) \<and> j < 2 \<and> i \<noteq> j \<longrightarrow>
     (\<exists>v. intersection_over_union
        ([\<lparr>rect_x = 0, rect_y = 0, width = 185, height = 100\<rparr>,
          \<lparr>rect_x = 15, rect_y = 0, width = 185, height = 100\<rparr>] ! i)
        ([\<lparr>rect_x = 0, rect_y = 0, width = 185, height = 100\<rparr>,
          \<lparr>rect_x = 15, rect_y = 0, width = 185, height = 100\<rparr>] ! j) = Inr v \<and> v \<le> 0.85)"
    using inst unfolding image_example_touching by simp
  from t[rule_format, of 0 1] i[rule_format, of 0 1]
  show ?thesis
    using text_example_two_lines image_example_touching by simp
qed

text \<open>
  C7, as the code has it. Both selectors return a list; the loop reads the
  candidates in descending order of score (text) or area (image); and the list
  returned has at most \<open>max 1 cap\<close> entries, where \<open>cap\<close> is
  \<^verbatim>\<open>max_text_crops_per_page\<close> or \<^verbatim>\<open>max_crops_per_page\<close>: at most \<open>cap\<close> entries when
  \<open>cap\<close> is 1 or more, and at most one entry otherwise.
\<close>

theorem selection_at_most_cap:
  "(\<exists>sel. select_text_crop_candidates tls W H cap pad e mh mc mnl mxl mcl = Inr sel
         \<and> int (length sel) \<le> max 1 cap)
   \<and> (\<exists>sel. select_image_crop_boxes raw W' H' e' mn mx cap' = Inr sel
         \<and> int (length sel) \<le> max 1 cap')
   \<and> sorted (rev (map score (sort_reverse score
         (text_raw_candidates tls W H pad e mh mc mnl mxl mcl))))
   \<and> sorted (rev (map (\<lambda>entry. width entry * height entry)
         (sort_reverse (\<lambda>entry. width entry * height entry) (fl :: rect list))))"
  using select_text_spec[of tls W H cap pad e mh mc mnl mxl mcl]
    select_image_spec[of raw W' H' e' mn mx cap']
    sort_reverse_descending[of score "text_raw_candidates tls W H pad e mh mc mnl mxl mcl"]
    sort_reverse_descending[of "\<lambda>entry. width entry * height entry" fl]
  by blast

lemma image_example_single:
  "select_image_crop_boxes [\<lparr>rect_x = 0, rect_y = 0, width = 185, height = 100\<rparr>]
     1000 1000 10 (1 / 1000) (1 / 2) 0
   = Inr [\<lparr>rect_x = 0, rect_y = 0, width = 185, height = 100\<rparr>]"
  by (simp add: select_image_crop_boxes_def clamp_bounds_def Let_def py_div_def
      sort_reverse_def)

text \<open>
  C7, as the specification states it, fails for the cap 0: the loop appends before it
  compares the length with the cap, and one image rectangle is returned.
\<close>

theorem selection_at_most_cap_counterexample:
  "select_image_crop_boxes [\<lparr>rect_x = 0, rect_y = 0, width = 185, height = 100\<rparr>]
     1000 1000 10 (1 / 1000) (1 / 2) 0
   = Inr [\<lparr>rect_x = 0, rect_y = 0, width = 185, height = 100\<rparr>]
   \<and> \<not> (int (length [\<lparr>rect_x = 0, rect_y = 0, width = 185, height = 100\<rparr>]) \<le> 0)"
  using image_example_single by simp

lemma hd_sort_reverse: "xs \<noteq> [] \<Longrightarrow> \<exists>ys. sort_reverse f xs = hd (sort_reverse f xs) # ys"
  using sort_reverse_Nil_iff[of f xs] by (cases "sort_reverse f xs") auto

text \<open>
  C9. With the cap 0, \<^verbatim>\<open>select_text_crop_candidates\<close> returns exactly one candidate
  when the list of raw candidates is not empty, the one of the highest score (the
  first of them in the sweep); \<^verbatim>\<open>select_image_crop_boxes\<close> returns exactly one
  rectangle when a rectangle passes the filter, the one of the largest area.
\<close>

theorem zero_cap_returns_one:
  "(text_raw_candidates tls W H pad e mh mc mnl mxl mcl \<noteq> [] \<longrightarrow>
      select_text_crop_candidates tls W H 0 pad e mh mc mnl mxl mcl
        = Inr [hd (sort_reverse score (text_raw_candidates tls W H pad e mh mc mnl mxl mcl))])
   \<and> (image_filter_loop W' H' e' mn mx [] [] raw = Inr (nl, fl) \<and> fl \<noteq> [] \<longrightarrow>
      select_image_crop_boxes raw W' H' e' mn mx 0
        = Inr [hd (sort_reverse (\<lambda>entry. width entry * height entry) fl)])"
proof (intro conjI impI)
  assume "text_raw_candidates tls W H pad e mh mc mnl mxl mcl \<noteq> []"
  then obtain ys where srt: "sort_reverse score (text_raw_candidates tls W H pad e mh mc mnl mxl mcl)
     = hd (sort_reverse score (text_raw_candidates tls W H pad e mh mc mnl mxl mcl)) # ys"
    using hd_sort_reverse by blast
  have "greedy_select bounds 0.72 0 []
          (sort_reverse score (text_raw_candidates tls W H pad e mh mc mnl mxl mcl))
        = Inr [hd (sort_reverse score (text_raw_candidates tls W H pad e mh mc mnl mxl mcl))]"
    by (subst srt) (rule greedy_select_cap0, simp)
  from select_text_unfold[OF this]
  show "select_text_crop_candidates tls W H 0 pad e mh mc mnl mxl mcl
        = Inr [hd (sort_reverse score (text_raw_candidates tls W H pad e mh mc mnl mxl mcl))]"
    by (simp split: list.splits)
next
  assume a: "image_filter_loop W' H' e' mn mx [] [] raw = Inr (nl, fl) \<and> fl \<noteq> []"
  then obtain ys where srt: "sort_reverse (\<lambda>entry. width entry * height entry) fl
     = hd (sort_reverse (\<lambda>entry. width entry * height entry) fl) # ys"
    using hd_sort_reverse by blast
  have g: "greedy_select (\<lambda>entry. entry) 0.85 0 []
          (sort_reverse (\<lambda>entry. width entry * height entry) fl)
        = Inr [hd (sort_reverse (\<lambda>entry. width entry * height entry) fl)]"
    by (subst srt) (rule greedy_select_cap0, simp)
  from a have loop: "image_filter_loop W' H' e' mn mx [] [] raw = Inr (nl, fl)" by simp
  show "select_image_crop_boxes raw W' H' e' mn mx 0
        = Inr [hd (sort_reverse (\<lambda>entry. width entry * height entry) fl)]"
    unfolding select_image_crop_boxes_def Let_def loop sum.case prod.case g by simp
qed


lemma text_raw_example_two_lines:
  "text_raw_candidates
     [\<lparr>rect_x = 0, rect_y = 0, width = 100, height = 100, text_str = ''a''\<rparr>,
      \<lparr>rect_x = 0, rect_y = 500, width = 100, height = 100, text_str = ''b''\<rparr>]
     1000 1000 0 10 10 1 1 1 10
   = [\<lparr>bounds = \<lparr>rect_x = 0, rect_y = 0, width = 100, height = 100\<rparr>,
        contextText = ''a'', score = 7 / 100\<rparr>,
      \<lparr>bounds = \<lparr>rect_x = 0, rect_y = 500, width = 100, height = 100\<rparr>,
        contextText = ''b'', score = 7 / 100\<rparr>]"
  by code_simp

lemma image_filter_example_single:
  "image_filter_loop 1000 1000 10 (1 / 1000) (1 / 2) [] []
     [\<lparr>rect_x = 0, rect_y = 0, width = 185, height = 100\<rparr>]
   = Inr ([\<lparr>rect_x = 0, rect_y = 0, width = 185, height = 100\<rparr>],
          [\<lparr>rect_x = 0, rect_y = 0, width = 185, height = 100\<rparr>])"
  by (simp add: clamp_bounds_def Let_def py_div_def)

theorem zero_cap_returns_one_witness:
  "text_raw_candidates
     [\<lparr>rect_x = 0, rect_y = 0, width = 100, height = 100, text_str = ''a''\<rparr>,
      \<lparr>rect_x = 0, rect_y = 500, width = 100, height = 100, text_str = ''b''\<rparr>]
     1000 1000 0 10 10 1 1 1 10 \<noteq> []
   \<and> select_text_crop_candidates
     [\<lparr>rect_x = 0, rect_y = 0, width = 100, height = 100, text_str = ''a''\<rparr>,
      \<lparr>rect_x = 0, rect_y = 500, width = 100, height = 100, text_str = ''b''\<rparr>]
     1000 1000 0 0 10 10 1 1 1 10
     = Inr [\<lparr>bounds = \<lparr>rect_x = 0, rect_y = 0, width = 100, height = 100\<rparr>,
              contextText = ''a'', score = 7 / 100\<rparr>]
   \<and> image_filter_loop 1000 1000 10 (1 / 1000) (1 / 2) [] []
        [\<lparr>rect_x = 0, rect_y = 0, width = 185, height = 100\<rparr>]
      = Inr ([\<lparr>rect_x = 0, rect_y = 0, width = 185, height = 100\<rparr>],
             [\<lparr>rect_x = 0, rect_y = 0, width = 185, height = 100\<rparr>])
   \<and> [\<lparr>rect_x = 0, rect_y = 0, width = 185, height = 100\<rparr>] \<noteq> []
   \<and> select_image_crop_boxes [\<lparr>rect_x = 0, rect_y = 0, width = 185, height = 100\<rparr>]
        1000 1000 10 (1 / 1000) (1 / 2) 0
      = Inr [\<lparr>rect_x = 0, rect_y = 0, width = 185, height = 100\<rparr>]"
proof -
  note inst = zero_cap_returns_one
     [of "[\<lparr>rect_x = 0, rect_y = 0, width = 100, height = 100, text_str = ''a''\<rparr>,
           \<lparr>rect_x = 0, rect_y = 500, width = 100, height = 100, text_str = ''b''\<rparr>]"
         1000 1000 0 10 10 1 1 1 10
         1000 1000 10 "1 / 1000" "1 / 2"
         "[\<lparr>rect_x = 0, rect_y = 0, width = 185, height = 100\<rparr>]"
         "[\<lparr>rect_x = 0, rect_y = 0, width = 185, height = 100\<rparr>]"
         "[\<lparr>rect_x = 0, rect_y = 0, width = 185, height = 100\<rparr>]"]
  show ?thesis
    using inst unfolding text_raw_example_two_lines image_filter_example_single
    by (simp add: sort_reverse_def)
qed










section \<open>Properties of the strings\<close>

lemma single_spaced_Cons:
  "single_spaced (c # ys) \<longleftrightarrow>
     (isspace c \<longrightarrow> c = CHR 0x20 \<and> (ys \<noteq> [] \<longrightarrow> \<not> isspace (hd ys))) \<and> single_spaced ys"
  by (cases ys) auto

lemma isspace_space: "isspace (CHR 0x20)"
  by (simp add: isspace_def)

lemma sub_whitespace_runs_hd:
  "xs \<noteq> [] \<Longrightarrow> \<not> isspace (hd xs) \<Longrightarrow>
   sub_whitespace_runs xs \<noteq> [] \<and> hd (sub_whitespace_runs xs) = hd xs"
  by (cases xs) auto

lemma dropWhile_hd: "dropWhile P xs \<noteq> [] \<Longrightarrow> \<not> P (hd (dropWhile P xs))"
  by (rule hd_dropWhile)

lemma single_spaced_sub: "single_spaced (sub_whitespace_runs s)"
proof (induction s rule: sub_whitespace_runs.induct)
  case 1
  show ?case by simp
next
  case (2 c cs)
  show ?case
  proof (cases "isspace c")
    case True
    let ?r = "dropWhile isspace cs"
    have ih: "single_spaced (sub_whitespace_runs ?r)" using 2(1)[OF True] .
    have "sub_whitespace_runs ?r \<noteq> [] \<longrightarrow> \<not> isspace (hd (sub_whitespace_runs ?r))"
    proof
      assume ne: "sub_whitespace_runs ?r \<noteq> []"
      then have "?r \<noteq> []" by (metis sub_whitespace_runs.simps(1))
      then have "\<not> isspace (hd ?r)" by (rule hd_dropWhile)
      with \<open>?r \<noteq> []\<close> show "\<not> isspace (hd (sub_whitespace_runs ?r))"
        using sub_whitespace_runs_hd by simp
    qed
    with ih True show ?thesis by (simp add: single_spaced_Cons)
  next
    case False
    with 2(2)[OF False] show ?thesis by (simp add: single_spaced_Cons)
  qed
qed

lemma dropWhile_id: "xs = [] \<or> \<not> P (hd xs) \<Longrightarrow> dropWhile P xs = xs"
  by (cases xs) auto

lemma sub_single_spaced: "single_spaced s \<Longrightarrow> sub_whitespace_runs s = s"
proof (induction s rule: sub_whitespace_runs.induct)
  case 1
  show ?case by simp
next
  case (2 c cs)
  from 2(3) have tl: "single_spaced cs" by (simp add: single_spaced_Cons)
  show ?case
  proof (cases "isspace c")
    case True
    with 2(3) have c: "c = CHR 0x20" and "cs = [] \<or> \<not> isspace (hd cs)"
      by (auto simp: single_spaced_Cons)
    then have d: "dropWhile isspace cs = cs" by (intro dropWhile_id)
    with 2(1)[OF True] tl have "sub_whitespace_runs cs = cs" by simp
    with True c d show ?thesis by simp
  next
    case False
    with 2(2)[OF False] tl show ?thesis by simp
  qed
qed

lemma single_spaced_append:
  "single_spaced (xs @ ys) \<Longrightarrow> single_spaced xs \<and> single_spaced ys"
proof (induction xs)
  case Nil
  then show ?case by simp
next
  case (Cons a xs)
  then show ?case by (cases xs) (auto simp: single_spaced_Cons)
qed

lemma single_spaced_dropWhile: "single_spaced s \<Longrightarrow> single_spaced (dropWhile P s)"
  using single_spaced_append[of "takeWhile P s" "dropWhile P s"] by simp

lemma rev_dropWhile_rev_prefix:
  "rev (dropWhile P (rev s)) @ rev (takeWhile P (rev s)) = s"
proof -
  have "rev (takeWhile P (rev s) @ dropWhile P (rev s)) = s" by simp
  then show ?thesis by (simp only: rev_append)
qed

lemma single_spaced_strip: "single_spaced s \<Longrightarrow> single_spaced (strip s)"
proof -
  assume "single_spaced s"
  then have a: "single_spaced (dropWhile isspace s)" by (rule single_spaced_dropWhile)
  have "rev (dropWhile isspace (rev (dropWhile isspace s)))
          @ rev (takeWhile isspace (rev (dropWhile isspace s))) = dropWhile isspace s"
    by (rule rev_dropWhile_rev_prefix)
  with a show ?thesis
    using single_spaced_append[of "rev (dropWhile isspace (rev (dropWhile isspace s)))"
       "rev (takeWhile isspace (rev (dropWhile isspace s)))"]
    by (simp add: strip_def)
qed

lemma strip_ends:
  assumes "strip s \<noteq> []"
  shows "\<not> isspace (hd (strip s)) \<and> \<not> isspace (last (strip s))"
proof -
  let ?v = "dropWhile isspace s"
  let ?w = "dropWhile isspace (rev ?v)"
  from assms have w: "?w \<noteq> []" by (simp add: strip_def)
  then have "\<not> isspace (hd ?w)" by (rule hd_dropWhile)
  with w have l: "\<not> isspace (last (strip s))" by (simp add: strip_def last_rev)
  from w have v: "?v \<noteq> []" by (metis dropWhile.simps(1) rev.simps(1))
  then have hv: "\<not> isspace (hd ?v)" by (rule hd_dropWhile)
  have "rev ?w @ rev (takeWhile isspace (rev ?v)) = ?v" by (rule rev_dropWhile_rev_prefix)
  then have "hd ?v = hd (rev ?w @ rev (takeWhile isspace (rev ?v)))" by simp
  also have "\<dots> = hd (rev ?w)" using w by simp
  finally have "hd (strip s) = hd ?v" by (simp add: strip_def)
  with hv l show ?thesis by simp
qed

lemma strip_id:
  assumes "t = [] \<or> (\<not> isspace (hd t) \<and> \<not> isspace (last t))"
  shows "strip t = t"
proof (cases "t = []")
  case True
  then show ?thesis by (simp add: strip_def)
next
  case False
  with assms have h: "\<not> isspace (hd t)" and l: "\<not> isspace (last t)" by auto
  from False h have d: "dropWhile isspace t = t" by (intro dropWhile_id) simp
  from False l have "\<not> isspace (hd (rev t))" by (simp add: hd_rev)
  then have "dropWhile isspace (rev t) = rev t" by (intro dropWhile_id) simp
  with d show ?thesis by (simp add: strip_def)
qed

lemma normalize_whitespace_normal:
  "single_spaced (normalize_whitespace s)
   \<and> (normalize_whitespace s = []
       \<or> (\<not> isspace (hd (normalize_whitespace s)) \<and> \<not> isspace (last (normalize_whitespace s))))"
proof (cases "s = []")
  case True
  then show ?thesis by (simp add: normalize_whitespace_def)
next
  case False
  then have eq: "normalize_whitespace s = strip (sub_whitespace_runs s)"
    by (simp add: normalize_whitespace_def)
  have "single_spaced (strip (sub_whitespace_runs s))"
    by (rule single_spaced_strip) (rule single_spaced_sub)
  then show ?thesis
    unfolding eq using strip_ends[of "sub_whitespace_runs s"] by blast
qed

lemma normalize_whitespace_fixed:
  assumes "single_spaced t" "t = [] \<or> (\<not> isspace (hd t) \<and> \<not> isspace (last t))"
  shows "normalize_whitespace t = t"
proof (cases "t = []")
  case True
  then show ?thesis by (simp add: normalize_whitespace_def)
next
  case False
  then have "normalize_whitespace t = strip (sub_whitespace_runs t)"
    by (simp add: normalize_whitespace_def)
  also have "\<dots> = strip t" using assms(1) by (simp add: sub_single_spaced)
  also have "\<dots> = t" using assms(2) by (rule strip_id)
  finally show ?thesis .
qed

lemma normalize_whitespace_idem:
  "normalize_whitespace (normalize_whitespace s) = normalize_whitespace s"
  using normalize_whitespace_normal[of s] by (intro normalize_whitespace_fixed) auto

lemma single_spaced_adjacent:
  "single_spaced t \<Longrightarrow> Suc i < length t \<Longrightarrow> \<not> (isspace (t ! i) \<and> isspace (t ! Suc i))"
proof (induction t arbitrary: i rule: single_spaced.induct)
  case 1
  then show ?case by simp
next
  case (2 c)
  then show ?case by simp
next
  case (3 c d ds)
  show ?case
  proof (cases i)
    case 0
    with 3(2) show ?thesis by auto
  next
    case (Suc k)
    with 3 show ?thesis by auto
  qed
qed

section \<open>Properties of the text lines\<close>

lemma find_matched_line_range:
  "find_matched_line g cy ls i m c = Some k \<Longrightarrow> m = Some k \<or> (i \<le> k \<and> k < i + length ls)"
proof (induction ls arbitrary: i m c)
  case Nil
  then show ?case by simp
next
  case (Cons l ls)
  show ?case
  proof (cases "\<bar>center_y l - cy\<bar> \<le> g \<and> (case c of None \<Rightarrow> True | Some d \<Rightarrow> \<bar>center_y l - cy\<bar> < d)")
    case True
    with Cons.prems have "find_matched_line g cy ls (Suc i) (Some i) (Some \<bar>center_y l - cy\<bar>) = Some k"
      by (simp add: Let_def)
    from Cons.IH[OF this] show ?thesis by auto
  next
    case False
    with Cons.prems have "find_matched_line g cy ls (Suc i) m c = Some k"
      by (auto simp: Let_def)
    from Cons.IH[OF this] show ?thesis by auto
  qed
qed

lemma find_matched_line_in_range:
  "find_matched_line g cy ls 0 None None = Some k \<Longrightarrow> k < length ls"
  using find_matched_line_range[of g cy ls 0 None None k] by simp

lemma py_div_length: "py_div s (of_nat (length (xs @ [x]))) = Inr (s / of_nat (length (xs @ [x])))"
  by (simp add: py_div_def)

lemma cluster_items_total: "\<exists>ls. cluster_items g lines cs = Inr ls"
proof (induction cs arbitrary: lines)
  case Nil
  show ?case by simp
next
  case (Cons c cs)
  show ?case
  proof (cases "find_matched_line g (rect_y c + height c / 2) lines 0 None None")
    case None
    then show ?thesis using Cons[of "lines @ [\<lparr>items = [c], center_y = rect_y c + height c / 2\<rparr>]"]
      by (simp add: Let_def)
  next
    case (Some i)
    then show ?thesis
      using Cons[of "lines[i := \<lparr>items = items (lines ! i) @ [c],
          center_y = sum_list (map (\<lambda>entry. rect_y entry + height entry / 2) (items (lines ! i) @ [c]))
             / of_nat (length (map (\<lambda>entry. rect_y entry + height entry / 2) (items (lines ! i) @ [c])))\<rparr>]"]
      by (simp add: Let_def py_div_def)
  qed
qed

lemma scan_item_bbox:
  "\<exists>a b c d. min_x (scan_item x st) = Some a \<and> min_y (scan_item x st) = Some b
     \<and> max_x (scan_item x st) = Some c \<and> max_y (scan_item x st) = Some d"
  by (simp add: scan_item_def grow_bbox_def Let_def)

lemma fold_scan_item_bbox:
  "xs \<noteq> [] \<Longrightarrow>
   \<exists>a b c d. min_x (fold scan_item xs st) = Some a \<and> min_y (fold scan_item xs st) = Some b
     \<and> max_x (fold scan_item xs st) = Some c \<and> max_y (fold scan_item xs st) = Some d"
proof (induction xs arbitrary: st)
  case Nil
  then show ?case by simp
next
  case (Cons x xs)
  show ?case
  proof (cases "xs = []")
    case True
    then show ?thesis using scan_item_bbox[of x st] by simp
  next
    case False
    then show ?thesis using Cons.IH[of "scan_item x st"] by simp
  qed
qed

lemma normalize_line_cases:
  "normalize_line line = Inr None
   \<or> (\<exists>l. normalize_line line = Inr (Some l) \<and> normal_text (text_str l))"
proof (cases "items line = []")
  case True
  then show ?thesis by (simp add: normalize_line_def normalize_whitespace_def)
next
  case False
  then have "sort_key rect_x (items line) \<noteq> []"
    by (metis length_0_conv length_sort)
  from fold_scan_item_bbox[OF this] obtain a b c d where
    "min_x (fold scan_item (sort_key rect_x (items line))
        \<lparr>min_x = None, min_y = None, max_x = None, max_y = None, pieces = [], previous = None\<rparr>) = Some a"
    "min_y (fold scan_item (sort_key rect_x (items line))
        \<lparr>min_x = None, min_y = None, max_x = None, max_y = None, pieces = [], previous = None\<rparr>) = Some b"
    "max_x (fold scan_item (sort_key rect_x (items line))
        \<lparr>min_x = None, min_y = None, max_x = None, max_y = None, pieces = [], previous = None\<rparr>) = Some c"
    "max_y (fold scan_item (sort_key rect_x (items line))
        \<lparr>min_x = None, min_y = None, max_x = None, max_y = None, pieces = [], previous = None\<rparr>) = Some d"
    by blast
  then show ?thesis
    by (auto simp: normalize_line_def Let_def normal_text_def)
qed

lemma normalize_lines_spec:
  "\<exists>ls. normalize_lines lines = Inr ls \<and> (\<forall>l\<in>set ls. normal_text (text_str l))"
proof (induction lines)
  case Nil
  show ?case by simp
next
  case (Cons line rest)
  then obtain ls where ls: "normalize_lines rest = Inr ls" "\<forall>l\<in>set ls. normal_text (text_str l)"
    by blast
  from normalize_line_cases[of line] show ?case
  proof
    assume "normalize_line line = Inr None"
    with ls show ?thesis by simp
  next
    assume "\<exists>l. normalize_line line = Inr (Some l) \<and> normal_text (text_str l)"
    then obtain l where "normalize_line line = Inr (Some l)" "normal_text (text_str l)" by blast
    with ls show ?thesis by simp
  qed
qed

lemma build_text_lines_spec:
  "\<exists>ls. build_text_lines cs = Inr ls \<and> (\<forall>l\<in>set ls. normal_text (text_str l))"
proof (cases "cs = []")
  case True
  then show ?thesis by (simp add: build_text_lines_def)
next
  case False
  define g where "g = real_of_int (max 6 (min 20 (py_round
     ((if map height (filter (\<lambda>item. height item > 0) (sort_key (\<lambda>item. (rect_y item, rect_x item)) cs)) \<noteq> []
       then sort (map height (filter (\<lambda>item. height item > 0) (sort_key (\<lambda>item. (rect_y item, rect_x item)) cs)))
              ! (length (map height (filter (\<lambda>item. height item > 0) (sort_key (\<lambda>item. (rect_y item, rect_x item)) cs))) div 2)
       else 12) * 0.9))))"
  obtain lines where c: "cluster_items g [] (sort_key (\<lambda>item. (rect_y item, rect_x item)) cs) = Inr lines"
    using cluster_items_total by blast
  have "build_text_lines cs = normalize_lines lines"
    using False c unfolding build_text_lines_def Let_def g_def by simp
  then show ?thesis using normalize_lines_spec[of lines] by simp
qed

lemma normal_text_props:
  assumes "normal_text t"
  shows "t \<noteq> [] \<and> normalize_whitespace t = t \<and> \<not> isspace (hd t) \<and> \<not> isspace (last t)
         \<and> (\<forall>i. Suc i < length t \<longrightarrow> \<not> (isspace (t ! i) \<and> isspace (t ! Suc i)))"
proof -
  from assms obtain p where ne: "t \<noteq> []" and p: "t = normalize_whitespace p"
    by (auto simp: normal_text_def)
  from normalize_whitespace_normal[of p] p ne
  have ss: "single_spaced t" and ends: "\<not> isspace (hd t)" "\<not> isspace (last t)" by auto
  have "normalize_whitespace t = t" unfolding p by (rule normalize_whitespace_idem)
  with ne ss ends single_spaced_adjacent[OF ss] show ?thesis by blast
qed

text \<open>
  C10. \<^verbatim>\<open>normalize_whitespace\<close> is idempotent. \<^verbatim>\<open>build_text_lines\<close> returns a list
  for every list of character items, and the text of every line of it is not empty,
  is a fixed point of \<^verbatim>\<open>normalize_whitespace\<close>, neither starts nor ends with a
  whitespace character and has no two whitespace characters in a row.
\<close>

theorem normalize_whitespace_idempotent_lines:
  "normalize_whitespace (normalize_whitespace s) = normalize_whitespace s
   \<and> (\<exists>ls. build_text_lines cs = Inr ls
        \<and> (\<forall>l\<in>set ls. text_str l \<noteq> []
              \<and> normalize_whitespace (text_str l) = text_str l
              \<and> \<not> isspace (hd (text_str l)) \<and> \<not> isspace (last (text_str l))
              \<and> (\<forall>i. Suc i < length (text_str l) \<longrightarrow>
                    \<not> (isspace (text_str l ! i) \<and> isspace (text_str l ! Suc i)))))"
proof -
  obtain ls where ls: "build_text_lines cs = Inr ls" "\<forall>l\<in>set ls. normal_text (text_str l)"
    using build_text_lines_spec by blast
  show ?thesis
    using normalize_whitespace_idem[of s] ls normal_text_props by blast
qed

lemma build_example_gap:
  "build_text_lines
     [\<lparr>rect_x = 20, rect_y = 0, width = 10, height = 10, text_str = ''b''\<rparr>,
      \<lparr>rect_x = 0, rect_y = 0, width = 10, height = 10, text_str = ''a''\<rparr>]
   = Inr [\<lparr>rect_x = 0, rect_y = 0, width = 30, height = 10, text_str = ''a b''\<rparr>]"
  by code_simp

theorem normalize_whitespace_idempotent_lines_witness:
  "normalize_whitespace (normalize_whitespace ''  a   b '') = normalize_whitespace ''  a   b ''
   \<and> build_text_lines
     [\<lparr>rect_x = 20, rect_y = 0, width = 10, height = 10, text_str = ''b''\<rparr>,
      \<lparr>rect_x = 0, rect_y = 0, width = 10, height = 10, text_str = ''a''\<rparr>]
     = Inr [\<lparr>rect_x = 0, rect_y = 0, width = 30, height = 10, text_str = ''a b''\<rparr>]
   \<and> \<lparr>rect_x = 0, rect_y = 0, width = 30, height = 10, text_str = ''a b''\<rparr>
       \<in> set [\<lparr>rect_x = 0, rect_y = 0, width = 30, height = 10, text_str = ''a b''\<rparr>]
   \<and> normalize_whitespace ''a b'' = ''a b''
   \<and> Suc 0 < length ''a b''
   \<and> \<not> (isspace (''a b'' ! 0) \<and> isspace (''a b'' ! Suc 0))"
proof -
  note inst = normalize_whitespace_idempotent_lines
    [of "''  a   b ''"
        "[\<lparr>rect_x = 20, rect_y = 0, width = 10, height = 10, text_str = ''b''\<rparr>,
          \<lparr>rect_x = 0, rect_y = 0, width = 10, height = 10, text_str = ''a''\<rparr>]"]
  have "normalize_whitespace ''a b'' = ''a b''
    \<and> (\<forall>i. Suc i < length ''a b'' \<longrightarrow> \<not> (isspace (''a b'' ! i) \<and> isspace (''a b'' ! Suc i)))"
    using inst unfolding build_example_gap by simp
  then have "normalize_whitespace ''a b'' = ''a b''"
    and "Suc 0 < length ''a b'' \<longrightarrow> \<not> (isspace (''a b'' ! 0) \<and> isspace (''a b'' ! Suc 0))"
    by blast+
  then show ?thesis
    using inst build_example_gap by simp
qed

lemma sort_key_permutation:
  assumes "mset xs = mset ys" "inj_on f (set xs)"
  shows "sort_key f xs = sort_key f ys"
proof (rule sort_key_inj_key_eq)
  show "mset xs = mset (sort_key f ys)" using assms(1) by simp
  show "inj_on f (set xs)" by (rule assms(2))
  show "sorted (map f (sort_key f ys))" by (rule sorted_sort_key)
qed

text \<open>
  C4, as the code has it. Two lists of character items that are permutations of each
  other give the same list of lines, texts and rectangles alike, when no two different
  items of them have the same position \<open>(y, x)\<close>: the sort by \<open>(y, x)\<close> is stable, so
  items at one position stay in the order in which they were supplied.
\<close>

theorem build_text_lines_permutation:
  "mset xs = mset ys \<and> inj_on (\<lambda>item. (rect_y item, rect_x item)) (set xs)
   \<longrightarrow> build_text_lines xs = build_text_lines ys"
proof
  assume a: "mset xs = mset ys \<and> inj_on (\<lambda>item. (rect_y item, rect_x item)) (set xs)"
  then have s: "sort_key (\<lambda>item. (rect_y item, rect_x item)) xs
              = sort_key (\<lambda>item. (rect_y item, rect_x item)) ys"
    using sort_key_permutation by blast
  from a have "xs = [] \<longleftrightarrow> ys = []" by (metis mset_zero_iff)
  then show "build_text_lines xs = build_text_lines ys"
    unfolding build_text_lines_def s by simp
qed

lemma build_example_ab:
  "build_text_lines
     [\<lparr>rect_x = 0, rect_y = 0, width = 10, height = 10, text_str = ''a''\<rparr>,
      \<lparr>rect_x = 0, rect_y = 0, width = 10, height = 10, text_str = ''b''\<rparr>]
   = Inr [\<lparr>rect_x = 0, rect_y = 0, width = 10, height = 10, text_str = ''ab''\<rparr>]"
  by code_simp

lemma build_example_ba:
  "build_text_lines
     [\<lparr>rect_x = 0, rect_y = 0, width = 10, height = 10, text_str = ''b''\<rparr>,
      \<lparr>rect_x = 0, rect_y = 0, width = 10, height = 10, text_str = ''a''\<rparr>]
   = Inr [\<lparr>rect_x = 0, rect_y = 0, width = 10, height = 10, text_str = ''ba''\<rparr>]"
  by code_simp

text \<open>
  C4, as the specification states it, fails for two different characters at one
  position: supplied as a, b the line reads ab, supplied as b, a it reads ba.
\<close>

theorem build_text_lines_permutation_counterexample:
  "mset [\<lparr>rect_x = 0, rect_y = 0, width = 10, height = 10, text_str = ''a''\<rparr>,
         \<lparr>rect_x = 0, rect_y = 0, width = 10, height = 10, text_str = ''b''\<rparr>]
   = mset [\<lparr>rect_x = 0, rect_y = 0, width = 10, height = 10, text_str = ''b''\<rparr>,
           \<lparr>rect_x = 0, rect_y = 0, width = 10, height = 10, text_str = ''a''\<rparr>]
   \<and> build_text_lines
     [\<lparr>rect_x = 0, rect_y = 0, width = 10, height = 10, text_str = ''a''\<rparr>,
      \<lparr>rect_x = 0, rect_y = 0, width = 10, height = 10, text_str = ''b''\<rparr>]
     = Inr [\<lparr>rect_x = 0, rect_y = 0, width = 10, height = 10, text_str = ''ab''\<rparr>]
   \<and> build_text_lines
     [\<lparr>rect_x = 0, rect_y = 0, width = 10, height = 10, text_str = ''b''\<rparr>,
      \<lparr>rect_x = 0, rect_y = 0, width = 10, height = 10, text_str = ''a''\<rparr>]
     = Inr [\<lparr>rect_x = 0, rect_y = 0, width = 10, height = 10, text_str = ''ba''\<rparr>]
   \<and> ''ab'' \<noteq> ''ba''"
  using build_example_ab build_example_ba by (simp add: add.commute)

lemma build_example_gap_swapped:
  "build_text_lines
     [\<lparr>rect_x = 0, rect_y = 0, width = 10, height = 10, text_str = ''a''\<rparr>,
      \<lparr>rect_x = 20, rect_y = 0, width = 10, height = 10, text_str = ''b''\<rparr>]
   = Inr [\<lparr>rect_x = 0, rect_y = 0, width = 30, height = 10, text_str = ''a b''\<rparr>]"
  by code_simp

theorem build_text_lines_permutation_witness:
  "mset [\<lparr>rect_x = 20, rect_y = 0, width = 10, height = 10, text_str = ''b''\<rparr>,
         \<lparr>rect_x = 0, rect_y = 0, width = 10, height = 10, text_str = ''a''\<rparr>]
   = mset [\<lparr>rect_x = 0, rect_y = 0, width = 10, height = 10, text_str = ''a''\<rparr>,
           \<lparr>rect_x = 20, rect_y = 0, width = 10, height = 10, text_str = ''b''\<rparr>]
   \<and> inj_on (\<lambda>item. (rect_y item, rect_x item))
        (set [\<lparr>rect_x = 20, rect_y = 0, width = 10, height = 10, text_str = ''b''\<rparr>,
              \<lparr>rect_x = 0, rect_y = 0, width = 10, height = 10, text_str = ''a''\<rparr>])
   \<and> build_text_lines
        [\<lparr>rect_x = 20, rect_y = 0, width = 10, height = 10, text_str = ''b''\<rparr>,
         \<lparr>rect_x = 0, rect_y = 0, width = 10, height = 10, text_str = ''a''\<rparr>]
     = build_text_lines
        [\<lparr>rect_x = 0, rect_y = 0, width = 10, height = 10, text_str = ''a''\<rparr>,
         \<lparr>rect_x = 20, rect_y = 0, width = 10, height = 10, text_str = ''b''\<rparr>]
   \<and> build_text_lines
        [\<lparr>rect_x = 0, rect_y = 0, width = 10, height = 10, text_str = ''a''\<rparr>,
         \<lparr>rect_x = 20, rect_y = 0, width = 10, height = 10, text_str = ''b''\<rparr>]
     = Inr [\<lparr>rect_x = 0, rect_y = 0, width = 30, height = 10, text_str = ''a b''\<rparr>]"
proof -
  have h1: "mset [\<lparr>rect_x = 20, rect_y = 0, width = 10, height = 10, text_str = ''b''\<rparr>,
         \<lparr>rect_x = 0, rect_y = 0, width = 10, height = 10, text_str = ''a''\<rparr>]
   = mset [\<lparr>rect_x = 0, rect_y = 0, width = 10, height = 10, text_str = ''a''\<rparr>,
           \<lparr>rect_x = 20, rect_y = 0, width = 10, height = 10, text_str = ''b''\<rparr>]"
    by (simp add: add.commute)
  have h2: "inj_on (\<lambda>item. (rect_y item, rect_x item))
        (set [\<lparr>rect_x = 20, rect_y = 0, width = 10, height = 10, text_str = ''b''\<rparr>,
              \<lparr>rect_x = 0, rect_y = 0, width = 10, height = 10, text_str = ''a''\<rparr>])"
    by simp
  show ?thesis
    using h1 h2 build_example_gap_swapped
      build_text_lines_permutation
        [of "[\<lparr>rect_x = 20, rect_y = 0, width = 10, height = 10, text_str = ''b''\<rparr>,
              \<lparr>rect_x = 0, rect_y = 0, width = 10, height = 10, text_str = ''a''\<rparr>]"
            "[\<lparr>rect_x = 0, rect_y = 0, width = 10, height = 10, text_str = ''a''\<rparr>,
              \<lparr>rect_x = 20, rect_y = 0, width = 10, height = 10, text_str = ''b''\<rparr>]"]
    by blast
qed

end
